theory Spec2Isabelle
  imports Complex_Main "HOL-Library.Word"
begin

section \<open>Go values\<close>

text \<open>
  Go's \<open>int\<close> is a 64-bit two's-complement integer on the platforms the service is built
  for: \<open>+\<close> and \<open>*\<close> wrap around, comparisons are signed (\<open>sint\<close>).
\<close>

type_synonym go_int = "64 word"

text \<open>
  A \<open>float64\<close> is a finite value, an infinity or NaN, as in IEEE 754 binary64.
  Comparisons and the special values follow the standard. An arithmetic operation, the
  conversion of an integer and a decimal constant that enters an arithmetic operation
  give the exact result rounded to the nearest binary64 value, ties to the even
  significand (\<open>round64\<close>): 53 significant bits in the normal range, multiples of
  \<open>2^-1074\<close> below \<open>2^-1022\<close>, and an infinity from \<open>2^1024 - 2^970\<close> on.
  Each operation rounds on its own (the language also allows an implementation to fuse
  \<open>x*y + z\<close> into one rounding; that is not modelled), and the sign of zero is not
  modelled. A constant that is only compared, as 0.94 is, keeps its decimal value: the
  binary64 constant is the nearest value below it, so that the comparison with a
  binary64 value comes out the same.
\<close>

datatype float64 = Fin real | PosInf | NegInf | NaN

text \<open>The number of binary digits of a natural number.\<close>

fun bitlen :: "nat \<Rightarrow> nat" where
  "bitlen n = (if n = 0 then 0 else Suc (bitlen (n div 2)))"

declare bitlen.simps [simp del]

text \<open>
  The binary exponent of a real \<open>x \<noteq> 0\<close>, that is the \<open>e\<close> with
  \<open>2^e \<le> |x| < 2^(e+1)\<close>; the power \<open>2^k\<close> for an integer \<open>k\<close>; the distance
  between neighbouring binary64 values at \<open>x\<close>; and the integer nearest to a real, the
  even one of two that are equally near.
\<close>

definition exponent :: "real \<Rightarrow> int" where
  "exponent x =
     (if 1 \<le> \<bar>x\<bar> then int (bitlen (nat \<lfloor>\<bar>x\<bar>\<rfloor>)) - 1
      else - int (bitlen (nat (\<lceil>1 / \<bar>x\<bar>\<rceil> - 1))))"

definition pow2 :: "int \<Rightarrow> real" where
  "pow2 k = (if 0 \<le> k then 2 ^ nat k else 1 / 2 ^ nat (- k))"

definition ulp :: "real \<Rightarrow> real" where
  "ulp x = pow2 (max (exponent x) (- 1022) - 52)"

definition roundEven :: "real \<Rightarrow> int" where
  "roundEven q =
     (let f = \<lfloor>q\<rfloor>; r = q - of_int f in
      if r < 1 / 2 then f else if 1 / 2 < r then f + 1 else if even f then f else f + 1)"

definition round64 :: "real \<Rightarrow> float64" where
  "round64 x =
     (if x = 0 then Fin 0
      else if 2 ^ 1024 - 2 ^ 970 \<le> \<bar>x\<bar> then (if 0 < x then PosInf else NegInf)
      else Fin (of_int (roundEven (x / ulp x)) * ulp x))"

fun f_lt :: "float64 \<Rightarrow> float64 \<Rightarrow> bool" where
  "f_lt (Fin a) (Fin b) = (a < b)"
| "f_lt (Fin a) PosInf = True"
| "f_lt NegInf (Fin b) = True"
| "f_lt NegInf PosInf = True"
| "f_lt _ _ = False"

definition f_gt :: "float64 \<Rightarrow> float64 \<Rightarrow> bool" where
  "f_gt a b = f_lt b a"

fun IsNaN :: "float64 \<Rightarrow> bool" where
  "IsNaN NaN = True"
| "IsNaN _ = False"

text \<open>\<open>math.IsInf(v, 0)\<close>: either infinity.\<close>

fun IsInf :: "float64 \<Rightarrow> bool" where
  "IsInf PosInf = True"
| "IsInf NegInf = True"
| "IsInf _ = False"

fun f_neg :: "float64 \<Rightarrow> float64" where
  "f_neg (Fin a) = Fin (- a)"
| "f_neg PosInf = NegInf"
| "f_neg NegInf = PosInf"
| "f_neg NaN = NaN"

definition signed_inf :: "real \<Rightarrow> float64" where
  "signed_inf a = (if a = 0 then NaN else if 0 < a then PosInf else NegInf)"

fun f_add :: "float64 \<Rightarrow> float64 \<Rightarrow> float64" where
  "f_add (Fin a) (Fin b) = round64 (a + b)"
| "f_add NaN _ = NaN"
| "f_add _ NaN = NaN"
| "f_add PosInf NegInf = NaN"
| "f_add NegInf PosInf = NaN"
| "f_add PosInf _ = PosInf"
| "f_add _ PosInf = PosInf"
| "f_add NegInf _ = NegInf"
| "f_add _ NegInf = NegInf"

fun f_mul :: "float64 \<Rightarrow> float64 \<Rightarrow> float64" where
  "f_mul (Fin a) (Fin b) = round64 (a * b)"
| "f_mul NaN _ = NaN"
| "f_mul _ NaN = NaN"
| "f_mul (Fin a) PosInf = signed_inf a"
| "f_mul PosInf (Fin b) = signed_inf b"
| "f_mul (Fin a) NegInf = signed_inf (- a)"
| "f_mul NegInf (Fin b) = signed_inf (- b)"
| "f_mul PosInf PosInf = PosInf"
| "f_mul NegInf NegInf = PosInf"
| "f_mul PosInf NegInf = NegInf"
| "f_mul NegInf PosInf = NegInf"

fun f_div :: "float64 \<Rightarrow> float64 \<Rightarrow> float64" where
  "f_div (Fin a) (Fin b) = (if b = 0 then signed_inf a else round64 (a / b))"
| "f_div NaN _ = NaN"
| "f_div _ NaN = NaN"
| "f_div (Fin a) _ = Fin 0"
| "f_div PosInf (Fin b) = (if 0 \<le> b then PosInf else NegInf)"
| "f_div NegInf (Fin b) = (if 0 \<le> b then NegInf else PosInf)"
| "f_div _ _ = NaN"

text \<open>The conversion \<open>float64(n)\<close> of an \<open>int\<close>.\<close>

definition f_of_int :: "go_int \<Rightarrow> float64" where
  "f_of_int n = round64 (real_of_int (sint n))"

text \<open>\<open>%d\<close> of \<open>fmt.Sprintf\<close>: the decimal digits, with a minus sign below zero.\<close>

fun nat_to_dec :: "nat \<Rightarrow> string" where
  "nat_to_dec n =
     (if n < 10 then [''0123456789'' ! n]
      else nat_to_dec (n div 10) @ [''0123456789'' ! (n mod 10)])"

declare nat_to_dec.simps [simp del]

definition itoa :: "go_int \<Rightarrow> string" where
  "itoa n = (if sint n < 0 then CHR ''-'' # nat_to_dec (nat (- sint n))
             else nat_to_dec (nat (sint n)))"

text \<open>
  A JSON value as \<open>encoding/json\<close> decodes it into \<open>any\<close>; \<open>map[string]any\<close> is a
  map from keys to such values (a nil map reads as the empty one).
\<close>

datatype json =
    JNull
  | JBool bool
  | JNumber float64
  | JString string
  | JArray "json list"
  | JObject "(string \<times> json) list"

type_synonym meta = "string \<rightharpoonup> json"

text \<open>
  The functions of Go's standard library whose behaviour rests on Unicode tables, on the
  IEEE decimal conversion or on the JSON grammar are parameters of the model; so is the
  conversion \<open>int(f)\<close> of a \<open>float64\<close>, which the language leaves to the implementation
  outside the range of \<open>int\<close>. A failing call returns the library's error text.
\<close>

record golib =
  TrimSpace :: "string \<Rightarrow> string"
  ToLower :: "string \<Rightarrow> string"
  ValidString :: "string \<Rightarrow> bool"
  ParseFloat :: "string \<Rightarrow> string + float64"
  Unmarshal :: "string \<Rightarrow> string + meta"
  FloatToInt :: "float64 \<Rightarrow> go_int"

section \<open>Messages and the invocation state\<close>

text \<open>
  \<open>schema.Message\<close> and its parts, with the fields the handlers read or write. A
  \<open>*schema.Message\<close> may be nil: \<open>None\<close>. Messages are values here: a handler
  changes a message only before it stores it in the history or passes it on, so no two
  references to one message ever see different contents.
\<close>

definition Assistant :: string where "Assistant = ''assistant''"
definition User :: string where "User = ''user''"
definition System :: string where "System = ''system''"
definition Tool :: string where "Tool = ''tool''"

record ToolCall =
  ID :: string
  FunctionName :: string
  FunctionArguments :: string

record TokenUsage =
  PromptTokens :: go_int
  CompletionTokens :: go_int
  TotalTokens :: go_int

record ResponseMeta =
  Usage :: "TokenUsage option"

record UsageCost =
  uc_currency :: string
  uc_model :: string
  uc_prompt_tokens :: go_int
  uc_completion_tokens :: go_int
  uc_total_tokens :: go_int
  uc_input_cost :: float64
  uc_output_cost :: float64
  uc_total_cost :: float64

datatype extra_value = ExtraUsageCost UsageCost | ExtraFloat float64 | ExtraOther string

record Message =
  Role :: string
  Content :: string
  ToolCalls :: "ToolCall list"
  ToolCallID :: string
  ResponseMeta :: "ResponseMeta option"
  Extra :: "string \<rightharpoonup> extra_value"

type_synonym msg_ptr = "Message option"

definition SystemMessage :: "string \<Rightarrow> Message" where
  "SystemMessage c =
     \<lparr>Role = System, Content = c, ToolCalls = [], ToolCallID = [],
      ResponseMeta = None, Extra = Map.empty\<rparr>"

text \<open>
  Modelled from the spec: the declarations of \<open>model.NLUResponse\<close> and of its intent,
  entity, language and sentiment entries are not among the sources. The fields are those
  of section 3 of the specification, which are the ones the parser writes and the handlers
  read. The diagnostic bag \<open>ParsingMetadata\<close> holds three keys, an absent key reading
  as \<open>[]\<close> or \<open>False\<close>; the wall-clock \<open>Timestamp\<close> is left out.
\<close>

record Intent =
  it_Name :: string
  it_Confidence :: float64
  it_Priority :: float64
  it_Metadata :: meta

record Entity =
  en_Type :: string
  en_Value :: string
  en_Confidence :: float64
  en_Position :: "go_int list"
  en_Metadata :: meta

record Language =
  la_Code :: string
  la_Confidence :: float64
  la_IsPrimary :: bool
  la_Metadata :: meta

record Sentiment =
  se_Label :: string
  se_Confidence :: float64
  se_Metadata :: meta

record ParsingMeta =
  parsing_errors :: "string list"
  truncated :: bool
  records_capped :: bool

record NLUResponse =
  Intents :: "Intent list"
  Entities :: "Entity list"
  Languages :: "Language list"
  Sentiment :: Sentiment
  ImportanceScore :: float64
  PrimaryIntent :: string
  PrimaryLanguage :: string
  Metadata :: "string \<rightharpoonup> string"
  ParsingMetadata :: ParsingMeta

text \<open>\<open>model.AppState\<close>, the per-invocation state.\<close>

record AppState =
  ConversationID :: string
  History :: "msg_ptr list"
  NLUAnalysis :: "NLUResponse option"
  ToolCallCount :: go_int
  ToolCallLimitReached :: bool
  ToolCallIDSeq :: go_int
  TotalCostUSD :: float64

record QueryInput =
  qi_ConversationID :: string
  qi_Query :: string

section \<open>Tool-call budget (nodes/utils.go)\<close>

definition DefaultMaxToolCalls :: go_int where
  "DefaultMaxToolCalls = 10"

definition normalizeMaxToolCalls :: "go_int \<Rightarrow> go_int" where
  "normalizeMaxToolCalls n = (if n \<le>s 0 then DefaultMaxToolCalls else n)"

text \<open>Both checks return the flag they report together with the updated state.\<close>

definition checkAndMarkToolLimit :: "AppState \<Rightarrow> go_int \<Rightarrow> bool \<times> AppState" where
  "checkAndMarkToolLimit state max0 =
     (let max1 = normalizeMaxToolCalls max0 in
      if \<not> ToolCallLimitReached state \<and> max1 \<le>s ToolCallCount state
      then (True, state\<lparr>ToolCallLimitReached := True\<rparr>)
      else (False, state))"

definition incrementToolCallAndCheck :: "AppState \<Rightarrow> go_int \<Rightarrow> bool \<times> AppState" where
  "incrementToolCallAndCheck state max0 =
     (let max1 = normalizeMaxToolCalls max0;
          state1 = state\<lparr>ToolCallCount := ToolCallCount state + 1\<rparr> in
      if max1 <s ToolCallCount state1
      then (True, state1\<lparr>ToolCallLimitReached := True\<rparr>)
      else (False, state1))"

section \<open>Byte strings (package strings)\<close>

text \<open>
  A Go string is a sequence of bytes, here a \<open>char list\<close>. The functions below work on
  bytes alone and are written out; \<open>strings.Index\<close> returns \<open>None\<close> for \<open>-1\<close>.
\<close>

definition HasPrefix :: "string \<Rightarrow> string \<Rightarrow> bool" where
  "HasPrefix s p = (take (length p) s = p)"

definition HasSuffix :: "string \<Rightarrow> string \<Rightarrow> bool" where
  "HasSuffix s p = (length p \<le> length s \<and> drop (length s - length p) s = p)"

fun Index :: "string \<Rightarrow> string \<Rightarrow> nat option" where
  "Index [] sep = (if sep = [] then Some 0 else None)"
| "Index (c # cs) sep =
     (if HasPrefix (c # cs) sep then Some 0 else map_option Suc (Index cs sep))"

text \<open>
  \<open>strings.Split\<close> and \<open>strings.SplitN\<close> for a non-empty separator: the pieces between
  the leftmost non-overlapping occurrences of the separator; with a limit of \<open>n\<close> pieces
  only the first \<open>n - 1\<close> occurrences split. \<open>k\<close> is the number of splits still allowed
  (\<open>None\<close>: no limit), \<open>acc\<close> the current piece, reversed.
\<close>

fun genSplit :: "string \<Rightarrow> nat option \<Rightarrow> string \<Rightarrow> string \<Rightarrow> string list" where
  "genSplit sep k acc [] = [rev acc]"
| "genSplit sep k acc (c # cs) =
     (if k \<noteq> Some 0 \<and> sep \<noteq> [] \<and> HasPrefix (c # cs) sep
      then rev acc # genSplit sep (map_option (\<lambda>j. j - 1) k) [] (drop (length sep) (c # cs))
      else genSplit sep k (c # acc) cs)"

definition Split :: "string \<Rightarrow> string \<Rightarrow> string list" where
  "Split s sep = genSplit sep None [] s"

definition SplitN :: "string \<Rightarrow> string \<Rightarrow> nat \<Rightarrow> string list" where
  "SplitN s sep n = genSplit sep (Some (n - 1)) [] s"

section \<open>The NLU response parser (package parsers)\<close>

datatype error =
    ErrExceedMaxSteps
  | ErrPanic string
  | ErrExternal string
  | ErrMsg string

definition recDelim :: string where "recDelim = ''##''"
definition tupDelim :: string where "tupDelim = ''<||>''"
definition endDelim :: string where "endDelim = ''<|COMPLETE|>''"

definition maxContentLen :: nat where "maxContentLen = 128 * 1024"
definition maxRecords :: nat where "maxRecords = 500"
definition maxTupleLen :: nat where "maxTupleLen = 8 * 1024"
definition maxMetaLen :: nat where "maxMetaLen = 4 * 1024"
definition maxErrSnippet :: nat where "maxErrSnippet = 200"

record rawTuple =
  Type :: string
  Parts :: "string list"

definition parseRawTuple :: "golib \<Rightarrow> string \<Rightarrow> string + rawTuple" where
  "parseRawTuple L s0 =
     (if s0 = [] then Inl ''empty tuple''
      else if maxTupleLen < length s0 then Inl ''tuple too large''
      else let s = TrimSpace L s0 in
        if length s < 2 \<or> hd s \<noteq> CHR ''('' \<or> last s \<noteq> CHR '')''
        then Inl ''invalid tuple parens''
        else let inner = take (length s - 2) (drop 1 s);
                 parts = SplitN inner tupDelim 5 in
          if length parts < 2 then Inl ''invalid tuple parts''
          else Inr \<lparr>Type = TrimSpace L (hd parts), Parts = parts\<rparr>)"

definition mustValidUTF8 :: "golib \<Rightarrow> string \<Rightarrow> string \<Rightarrow> string option" where
  "mustValidUTF8 L s name = (if \<not> ValidString L s then Some (name @ '' invalid utf8'') else None)"

definition parseFloat :: "golib \<Rightarrow> string \<Rightarrow> string \<Rightarrow> string + float64" where
  "parseFloat L s name =
     (case ParseFloat L (TrimSpace L s) of
        Inl e \<Rightarrow> Inl (name @ '' parse: '' @ e)
      | Inr v \<Rightarrow> Inr v)"

definition parseFloatInRange ::
  "golib \<Rightarrow> string \<Rightarrow> string \<Rightarrow> float64 \<Rightarrow> float64 \<Rightarrow> string + float64" where
  "parseFloatInRange L s name min0 max0 =
     (case parseFloat L s name of
        Inl e \<Rightarrow> Inl e
      | Inr v \<Rightarrow>
          if IsNaN v \<or> IsInf v then Inl (name @ '' invalid number'')
          else if f_lt v min0 \<or> f_gt v max0 then Inl (name @ '' out of range'')
          else Inr v)"

definition parseMeta :: "golib \<Rightarrow> string \<Rightarrow> string + meta" where
  "parseMeta L s0 =
     (let s = TrimSpace L s0 in
      if s = [] then Inr Map.empty
      else if maxMetaLen < length s then Inl ''metadata too large''
      else if \<not> HasPrefix s ''{'' \<or> \<not> HasSuffix s ''}'' then Inl ''metadata not json object''
      else Unmarshal L s)"

definition safeSnippet :: "golib \<Rightarrow> string \<Rightarrow> string" where
  "safeSnippet L s0 =
     (let s = TrimSpace L s0 in if length s \<le> maxErrSnippet then s else take maxErrSnippet s)"

definition isISO639_3 :: "string \<Rightarrow> bool" where
  "isISO639_3 code =
     (length code = 3 \<and>
      list_all (\<lambda>c. \<not> ((of_char c :: nat) < of_char CHR ''a'' \<or> (of_char CHR ''z'' :: nat) < of_char c))
        code)"

text \<open>The result \<open>[]\<close> is Go's nil slice.\<close>

fun entityPositionOf :: "golib \<Rightarrow> json option \<Rightarrow> go_int list" where
  "entityPositionOf L (Some (JArray [JNumber a, JNumber b])) =
     (let start = FloatToInt L a; end0 = FloatToInt L b in
      if start <s 0 \<or> end0 <s 0 \<or> end0 <s start then [] else [start, end0])"
| "entityPositionOf L _ = []"

definition normalizeEntityPosition :: "golib \<Rightarrow> meta \<Rightarrow> go_int list" where
  "normalizeEntityPosition L m = entityPositionOf L (m ''entity_position'')"

definition sanitizeLanguageMeta :: "meta \<Rightarrow> meta" where
  "sanitizeLanguageMeta m =
     (let m1 = (case m ''detected_tokens'' of
                  Some (JNumber v) \<Rightarrow>
                    if f_lt v (Fin 0) \<or> IsNaN v \<or> IsInf v then m(''detected_tokens'' := None) else m
                | _ \<Rightarrow> m) in
      case m1 ''script'' of
        Some (JString _) \<Rightarrow> m1
      | _ \<Rightarrow> m1(''script'' := None))"

definition sanitizeUnit :: "meta \<Rightarrow> string \<Rightarrow> float64 \<Rightarrow> meta" where
  "sanitizeUnit m key lo =
     (case m key of
        Some (JNumber v) \<Rightarrow>
          if f_lt v lo \<or> f_gt v (Fin 1) \<or> IsNaN v \<or> IsInf v then m(key := None) else m
      | _ \<Rightarrow> m(key := None))"

definition sanitizeSentimentMeta :: "meta \<Rightarrow> meta" where
  "sanitizeSentimentMeta m = sanitizeUnit (sanitizeUnit m ''polarity'' (Fin (- 1))) ''subjectivity'' (Fin 0)"

definition addErr :: "string \<Rightarrow> NLUResponse \<Rightarrow> NLUResponse" where
  "addErr msg resp =
     resp\<lparr>ParsingMetadata :=
       (ParsingMetadata resp)\<lparr>parsing_errors := parsing_errors (ParsingMetadata resp) @ [msg]\<rparr>\<rparr>"

text \<open>
  The optional metadata field at index \<open>i\<close> of a tuple: the decoded (and sanitised) map,
  or the empty map and a diagnostic when it does not decode.
\<close>

definition metaField ::
  "golib \<Rightarrow> string list \<Rightarrow> nat \<Rightarrow> (meta \<Rightarrow> meta) \<Rightarrow> string \<Rightarrow> NLUResponse \<Rightarrow> meta \<times> NLUResponse" where
  "metaField L parts i sanitize msg resp =
     (if i < length parts
      then (case parseMeta L (parts ! i) of
              Inr m \<Rightarrow> (sanitize m, resp)
            | Inl e \<Rightarrow> (Map.empty, addErr msg resp))
      else (Map.empty, resp))"

text \<open>The four cases of the \<open>switch\<close> on the tuple type; a \<open>continue\<close> returns the response.\<close>

definition processIntent :: "golib \<Rightarrow> rawTuple \<Rightarrow> NLUResponse \<Rightarrow> NLUResponse" where
  "processIntent L rt resp =
     (if length (Parts rt) < 4 then addErr ''intent: insufficient parts'' resp
      else let name = TrimSpace L (Parts rt ! 1) in
        if mustValidUTF8 L name ''intent.name'' \<noteq> None \<or> name = []
        then addErr ''intent: invalid name utf8'' resp
        else case parseFloatInRange L (Parts rt ! 2) ''intent.confidence'' (Fin 0) (Fin 1) of
          Inl e \<Rightarrow> addErr ''intent: invalid confidence'' resp
        | Inr conf \<Rightarrow>
            (case parseFloatInRange L (Parts rt ! 3) ''intent.priority'' (Fin 0) (Fin 1) of
               Inl e \<Rightarrow> addErr ''intent: invalid priority'' resp
             | Inr prio \<Rightarrow>
                 (let (m, resp1) =
                        metaField L (Parts rt) 4 (\<lambda>m. m) ''intent: invalid metadata json'' resp in
                  resp1\<lparr>Intents := Intents resp1 @
                    [\<lparr>it_Name = name, it_Confidence = conf, it_Priority = prio,
                      it_Metadata = m\<rparr>]\<rparr>)))"

definition processEntity :: "golib \<Rightarrow> rawTuple \<Rightarrow> NLUResponse \<Rightarrow> NLUResponse" where
  "processEntity L rt resp =
     (if length (Parts rt) < 4 then addErr ''entity: insufficient parts'' resp
      else let etype = TrimSpace L (Parts rt ! 1); val = TrimSpace L (Parts rt ! 2) in
        if mustValidUTF8 L etype ''entity.type'' \<noteq> None \<or> etype = []
        then addErr ''entity: invalid type utf8'' resp
        else if mustValidUTF8 L val ''entity.value'' \<noteq> None \<or> val = []
        then addErr ''entity: invalid value utf8'' resp
        else case parseFloatInRange L (Parts rt ! 3) ''entity.confidence'' (Fin 0) (Fin 1) of
          Inl e \<Rightarrow> addErr ''entity: invalid confidence'' resp
        | Inr conf \<Rightarrow>
            (let (m, resp1) =
                   metaField L (Parts rt) 4 (\<lambda>m. m) ''entity: invalid metadata json'' resp in
             resp1\<lparr>Entities := Entities resp1 @
               [\<lparr>en_Type = etype, en_Value = val, en_Confidence = conf,
                 en_Position = normalizeEntityPosition L m, en_Metadata = m\<rparr>]\<rparr>))"

definition processLanguage :: "golib \<Rightarrow> rawTuple \<Rightarrow> NLUResponse \<Rightarrow> NLUResponse" where
  "processLanguage L rt resp =
     (if length (Parts rt) < 4 then addErr ''language: insufficient parts'' resp
      else let code = ToLower L (TrimSpace L (Parts rt ! 1)) in
        if \<not> isISO639_3 code \<or> mustValidUTF8 L code ''lang.code'' \<noteq> None
        then addErr ''language: invalid code'' resp
        else case parseFloatInRange L (Parts rt ! 2) ''lang.confidence'' (Fin 0) (Fin 1) of
          Inl e \<Rightarrow> addErr ''language: invalid confidence'' resp
        | Inr conf \<Rightarrow>
            (let isPrimary = (TrimSpace L (Parts rt ! 3) = ''1'');
                 (m, resp1) =
                   metaField L (Parts rt) 4 sanitizeLanguageMeta
                     ''language: invalid metadata json'' resp in
             resp1\<lparr>Languages := Languages resp1 @
               [\<lparr>la_Code = code, la_Confidence = conf, la_IsPrimary = isPrimary,
                 la_Metadata = m\<rparr>]\<rparr>))"

definition processSentiment :: "golib \<Rightarrow> rawTuple \<Rightarrow> NLUResponse \<Rightarrow> NLUResponse" where
  "processSentiment L rt resp =
     (if length (Parts rt) < 3 then addErr ''sentiment: insufficient parts'' resp
      else let label = TrimSpace L (Parts rt ! 1) in
        if mustValidUTF8 L label ''sent.label'' \<noteq> None \<or> label = []
        then addErr ''sentiment: invalid label utf8'' resp
        else case parseFloatInRange L (Parts rt ! 2) ''sent.confidence'' (Fin 0) (Fin 1) of
          Inl e \<Rightarrow> addErr ''sentiment: invalid confidence'' resp
        | Inr conf \<Rightarrow>
            (let (m, resp1) =
                   metaField L (Parts rt) 3 sanitizeSentimentMeta
                     ''sentiment: invalid metadata json'' resp in
             resp1\<lparr>Sentiment := \<lparr>se_Label = label, se_Confidence = conf, se_Metadata = m\<rparr>\<rparr>))"

text \<open>One record of the loop body, after it was trimmed and found non-empty.\<close>

definition processRecord :: "golib \<Rightarrow> string \<Rightarrow> NLUResponse \<Rightarrow> NLUResponse" where
  "processRecord L rec resp =
     (case parseRawTuple L rec of
        Inl e \<Rightarrow> addErr (''bad_record: '' @ safeSnippet L rec) resp
      | Inr rt \<Rightarrow>
          if Type rt = ''intent'' then processIntent L rt resp
          else if Type rt = ''entity'' then processEntity L rt resp
          else if Type rt = ''language'' then processLanguage L rt resp
          else if Type rt = ''sentiment'' then processSentiment L rt resp
          else addErr ''unknown tuple type'' resp)"

text \<open>The loop over the records; \<open>processed\<close> counts the non-empty ones.\<close>

fun processRecords :: "golib \<Rightarrow> string list \<Rightarrow> nat \<Rightarrow> NLUResponse \<Rightarrow> NLUResponse" where
  "processRecords L [] processed resp = resp"
| "processRecords L (rec0 # recs) processed resp =
     (if maxRecords \<le> processed
      then resp\<lparr>ParsingMetadata := (ParsingMetadata resp)\<lparr>records_capped := True\<rparr>\<rparr>
      else let rec = TrimSpace L rec0 in
        if rec = [] \<or> rec = endDelim then processRecords L recs processed resp
        else processRecords L recs (processed + 1) (processRecord L rec resp))"

text \<open>The derived fields. Each loop returns the variables it assigns.\<close>

fun primaryIntentLoop :: "Intent list \<Rightarrow> float64 \<Rightarrow> string \<Rightarrow> float64 \<times> string" where
  "primaryIntentLoop [] bestConf primary = (bestConf, primary)"
| "primaryIntentLoop (it # its) bestConf primary =
     (if f_gt (it_Confidence it) bestConf
      then primaryIntentLoop its (it_Confidence it) (it_Name it)
      else primaryIntentLoop its bestConf primary)"

fun firstPrimaryLanguage :: "Language list \<Rightarrow> string \<Rightarrow> string" where
  "firstPrimaryLanguage [] primary = primary"
| "firstPrimaryLanguage (l # ls) primary =
     (if la_IsPrimary l then la_Code l else firstPrimaryLanguage ls primary)"

fun bestLanguageLoop :: "Language list \<Rightarrow> float64 \<Rightarrow> string \<Rightarrow> float64 \<times> string" where
  "bestLanguageLoop [] best primary = (best, primary)"
| "bestLanguageLoop (l # ls) best primary =
     (if f_gt (la_Confidence l) best
      then bestLanguageLoop ls (la_Confidence l) (la_Code l)
      else bestLanguageLoop ls best primary)"

fun primaryIntentValues :: "Intent list \<Rightarrow> string \<Rightarrow> float64 \<times> float64" where
  "primaryIntentValues [] primary = (Fin 0, Fin 0)"
| "primaryIntentValues (it # its) primary =
     (if it_Name it = primary then (it_Confidence it, it_Priority it)
      else primaryIntentValues its primary)"

definition derivedFields :: "NLUResponse \<Rightarrow> NLUResponse" where
  "derivedFields resp =
     (let resp1 = resp\<lparr>PrimaryIntent :=
                    snd (primaryIntentLoop (Intents resp) (Fin (- 1)) (PrimaryIntent resp))\<rparr>;
          resp2 = resp1\<lparr>PrimaryLanguage :=
                    firstPrimaryLanguage (Languages resp1) (PrimaryLanguage resp1)\<rparr>;
          resp3 = (if PrimaryLanguage resp2 = []
                   then resp2\<lparr>PrimaryLanguage :=
                          snd (bestLanguageLoop (Languages resp2) (Fin (- 1)) (PrimaryLanguage resp2))\<rparr>
                   else resp2) in
      if Intents resp3 \<noteq> []
      then (let (conf, prio) = primaryIntentValues (Intents resp3) (PrimaryIntent resp3) in
            resp3\<lparr>ImportanceScore := f_add (f_mul conf (round64 0.6)) (f_mul prio (round64 0.4))\<rparr>)
      else resp3)"

definition emptyResponse :: NLUResponse where
  "emptyResponse =
     \<lparr>Intents = [], Entities = [], Languages = [],
      Sentiment = \<lparr>se_Label = [], se_Confidence = Fin 0, se_Metadata = Map.empty\<rparr>,
      ImportanceScore = Fin 0, PrimaryIntent = [], PrimaryLanguage = [],
      Metadata = [''parser'' \<mapsto> ''lite''],
      ParsingMetadata = \<lparr>parsing_errors = [], truncated = False, records_capped = False\<rparr>\<rparr>"

text \<open>
  \<open>ParseNLUResponse\<close>. The deferred \<open>recover\<close> turns a panic into an internal error; the
  body has no panicking operation (every index is guarded by a length check, every type
  assertion has the two-value form), so the result is always \<open>Inr\<close>.
\<close>

definition ParseNLUResponse :: "golib \<Rightarrow> string \<Rightarrow> error + NLUResponse" where
  "ParseNLUResponse L content0 =
     (let trunc = (maxContentLen < length content0);
          content1 = (if trunc then take maxContentLen content0 else content0);
          content = (case Index content1 endDelim of
                       Some idx \<Rightarrow> take idx content1
                     | None \<Rightarrow> content1);
          resp0 = (if trunc
                   then emptyResponse\<lparr>ParsingMetadata :=
                          (ParsingMetadata emptyResponse)\<lparr>truncated := True\<rparr>\<rparr>
                   else emptyResponse);
          records = Split content recDelim in
      Inr (derivedFields (processRecords L records 0 resp0)))"

text \<open>
  A reference instance of the library for evaluating the parser on ASCII input: it agrees
  with Go on strings of ASCII bytes; it reads a plain decimal numeral (digits with an
  optional fraction, no sign and no exponent) at its decimal value, which is Go's result
  where that value is a binary64 number (as 0, 0.25, 0.5, 0.75 and 1 are); it decodes
  the empty JSON object only.
\<close>

definition asciiSpace :: "char \<Rightarrow> bool" where
  "asciiSpace c = (c \<in> set [CHR 0x09, CHR 0x0A, CHR 0x0B, CHR 0x0C, CHR 0x0D, CHR '' ''])"

definition asciiTrimSpace :: "string \<Rightarrow> string" where
  "asciiTrimSpace s = rev (dropWhile asciiSpace (rev (dropWhile asciiSpace s)))"

definition asciiToLower :: "string \<Rightarrow> string" where
  "asciiToLower s =
     map (\<lambda>c. case map_of (zip ''ABCDEFGHIJKLMNOPQRSTUVWXYZ'' ''abcdefghijklmnopqrstuvwxyz'') c of
                Some l \<Rightarrow> l
              | None \<Rightarrow> c) s"

definition isDigit :: "char \<Rightarrow> bool" where
  "isDigit c = ((of_char CHR ''0'' :: nat) \<le> of_char c \<and> (of_char c :: nat) \<le> of_char CHR ''9'')"

fun digitsValue :: "string \<Rightarrow> nat \<Rightarrow> nat" where
  "digitsValue [] acc = acc"
| "digitsValue (c # cs) acc = digitsValue cs (10 * acc + (of_char c - of_char CHR ''0''))"

definition decimalParseFloat :: "string \<Rightarrow> string + float64" where
  "decimalParseFloat s =
     (let ip = takeWhile isDigit s; rest = dropWhile isDigit s in
      if rest = [] \<and> ip \<noteq> [] then Inr (Fin (real (digitsValue ip 0)))
      else if rest \<noteq> [] \<and> hd rest = CHR ''.'' \<and> list_all isDigit (tl rest) \<and> (ip \<noteq> [] \<or> tl rest \<noteq> [])
      then Inr (Fin (real (digitsValue ip 0) + real (digitsValue (tl rest) 0) / 10 ^ length (tl rest)))
      else Inl ''invalid syntax'')"

definition refLib :: golib where
  "refLib =
     \<lparr>TrimSpace = asciiTrimSpace, ToLower = asciiToLower,
      ValidString = list_all (\<lambda>c. (of_char c :: nat) < 128),
      ParseFloat = decimalParseFloat,
      Unmarshal = (\<lambda>s. if s = ''{}'' then Inr Map.empty else Inl ''unsupported''),
      FloatToInt = (\<lambda>f. case f of Fin r \<Rightarrow> word_of_int (if 0 \<le> r then \<lfloor>r\<rfloor> else \<lceil>r\<rceil>) | _ \<Rightarrow> 0)\<rparr>"

section \<open>Cost of a model call (package model)\<close>

record Pricing =
  InputPerM :: float64
  OutputPerM :: float64

definition defaultPricing :: "string \<rightharpoonup> Pricing" where
  "defaultPricing =
     [''gemini-2.5-flash'' \<mapsto> \<lparr>InputPerM = round64 0.30, OutputPerM = round64 2.50\<rparr>,
      ''gemini-2.5-flash-lite'' \<mapsto> \<lparr>InputPerM = round64 0.10, OutputPerM = round64 0.40\<rparr>]"

definition CostEnabled :: bool where
  "CostEnabled = True"

definition ResolvePricing :: "string \<Rightarrow> Pricing" where
  "ResolvePricing model =
     (case defaultPricing model of
        Some p \<Rightarrow> p
      | None \<Rightarrow> \<lparr>InputPerM = Fin 0, OutputPerM = Fin 0\<rparr>)"

definition ComputeCost :: "TokenUsage option \<Rightarrow> Pricing \<Rightarrow> float64 \<times> float64 \<times> float64" where
  "ComputeCost usage p =
     (case usage of
        None \<Rightarrow> (Fin 0, Fin 0, Fin 0)
      | Some u \<Rightarrow>
          (let inputCost = f_div (f_mul (InputPerM p) (f_of_int (PromptTokens u))) (Fin 1000000);
               outputCost = f_div (f_mul (OutputPerM p) (f_of_int (CompletionTokens u))) (Fin 1000000);
               total = f_add inputCost outputCost in
           (inputCost, outputCost, total)))"

section \<open>Node handlers (package nodes)\<close>

text \<open>
  Modelled from the spec: the constants that name the graph's nodes are not among the
  sources; each is a constructor here, and \<open>END\<close> is the executor's terminal marker.
  A handler takes the payload and the state and returns both; log output is left out.
\<close>

datatype node =
    NodeInputConverter
  | NodeNLUChatModel
  | NodeParser
  | NodeHumanHandoff
  | NodeResponseAssembler
  | NodeResponseChatModel
  | NodeToolExecutor
  | END

definition NewInputConverterPreHandler :: "QueryInput \<Rightarrow> AppState \<Rightarrow> QueryInput \<times> AppState" where
  "NewInputConverterPreHandler in0 s =
     (let s1 = (if ConversationID s = [] then s\<lparr>ConversationID := qi_ConversationID in0\<rparr> else s) in
      (in0, s1\<lparr>ToolCallCount := 0, ToolCallLimitReached := False, ToolCallIDSeq := 0,
              TotalCostUSD := Fin 0\<rparr>))"

text \<open>
  The cost block that both model post-handlers run when the output carries usage
  metadata: it annotates the message and adds the call's total to the state.
\<close>

definition recordUsageCost :: "string \<Rightarrow> Message \<Rightarrow> AppState \<Rightarrow> Message \<times> AppState" where
  "recordUsageCost modelName out state =
     (case ResponseMeta out of
        None \<Rightarrow> (out, state)
      | Some rm \<Rightarrow>
          (case Usage rm of
             None \<Rightarrow> (out, state)
           | Some u \<Rightarrow>
               if \<not> CostEnabled then (out, state)
               else
                 (let pricing = ResolvePricing modelName;
                      (inC, outC, totalC) = ComputeCost (Some u) pricing;
                      out1 = out\<lparr>Extra := (Extra out)(''usage_cost'' \<mapsto> ExtraUsageCost
                               \<lparr>uc_currency = ''USD'', uc_model = modelName,
                                uc_prompt_tokens = PromptTokens u,
                                uc_completion_tokens = CompletionTokens u,
                                uc_total_tokens = TotalTokens u,
                                uc_input_cost = inC, uc_output_cost = outC,
                                uc_total_cost = totalC\<rparr>)\<rparr>;
                      state1 = state\<lparr>TotalCostUSD := f_add (TotalCostUSD state) totalC\<rparr>;
                      out2 = out1\<lparr>Extra := (Extra out1)(''usage_cost_total_usd'' \<mapsto>
                               ExtraFloat (TotalCostUSD state1))\<rparr> in
                  (out2, state1))))"

definition NewNLUChatModelPostHandler :: "string \<Rightarrow> msg_ptr \<Rightarrow> AppState \<Rightarrow> msg_ptr \<times> AppState" where
  "NewNLUChatModelPostHandler modelName out state =
     (case out of
        None \<Rightarrow> (None, state)
      | Some m \<Rightarrow> (let (m1, state1) = recordUsageCost modelName m state in (Some m1, state1)))"

definition NewParserNode :: "golib \<Rightarrow> msg_ptr \<Rightarrow> error + NLUResponse" where
  "NewParserNode L resp =
     (case resp of
        None \<Rightarrow> Inl (ErrPanic ''nil pointer dereference'')
      | Some m \<Rightarrow> ParseNLUResponse L (Content m))"

definition NewParserPostHandler :: "NLUResponse \<Rightarrow> AppState \<Rightarrow> NLUResponse \<times> AppState" where
  "NewParserPostHandler out state = (out, state\<lparr>NLUAnalysis := Some out\<rparr>)"

definition NewHumanHandoffCondition :: "NLUResponse \<Rightarrow> node" where
  "NewHumanHandoffCondition input =
     (let s = Sentiment input in
      if se_Label s = ''negative'' \<and> f_gt (se_Confidence s) (Fin 0.94)
      then NodeHumanHandoff
      else NodeResponseAssembler)"

definition NewHumanHandoffNode :: "NLUResponse \<Rightarrow> Message" where
  "NewHumanHandoffNode input =
     SystemMessage ''Human intervention required for negative sentiment. Case escalated to admin.''"

text \<open>
  The search of the response pre-handler for the most recent assistant message with tool
  calls, over the history from its end: the identifier of that message's first tool call
  when it is not blank.
\<close>

fun recentToolCallID :: "golib \<Rightarrow> msg_ptr list \<Rightarrow> string option" where
  "recentToolCallID L [] = None"
| "recentToolCallID L (None # ms) = recentToolCallID L ms"
| "recentToolCallID L (Some msg # ms) =
     (if Role msg \<noteq> Assistant \<or> ToolCalls msg = [] then recentToolCallID L ms
      else if TrimSpace L (ID (hd (ToolCalls msg))) \<noteq> [] then Some (ID (hd (ToolCalls msg)))
      else None)"

definition backfillToolCallID :: "golib \<Rightarrow> msg_ptr list \<Rightarrow> AppState \<Rightarrow> msg_ptr list" where
  "backfillToolCallID L in0 state =
     (if in0 = [] then in0
      else case last in0 of
        None \<Rightarrow> in0
      | Some l \<Rightarrow>
          if Role l = Tool \<and> TrimSpace L (ToolCallID l) = []
          then (case recentToolCallID L (rev (History state)) of
                  Some i \<Rightarrow> butlast in0 @ [Some (l\<lparr>ToolCallID := i\<rparr>)]
                | None \<Rightarrow> in0)
          else in0)"

definition wrapUpNotice :: "go_int \<Rightarrow> Message" where
  "wrapUpNotice maxToolCalls =
     \<lparr>Role = System,
      Content = ''SYSTEM NOTICE: You have reached the maximum tool call limit ('' @ itoa maxToolCalls
        @ ''). '' @ ''Please synthesize a helpful response using the information you've already gathered. ''
        @ ''Acknowledge any limitations in your response if you couldn't complete all necessary tool calls.'',
      ToolCalls = [], ToolCallID = [], ResponseMeta = None, Extra = Map.empty\<rparr>"

definition NewResponseChatModelPreHandler ::
  "golib \<Rightarrow> go_int \<Rightarrow> msg_ptr list \<Rightarrow> AppState \<Rightarrow> msg_ptr list \<times> AppState" where
  "NewResponseChatModelPreHandler L maxToolCalls in0 state =
     (let in1 = backfillToolCallID L in0 state;
          state1 = state\<lparr>History := History state @ in1\<rparr>;
          (marked, state2) = checkAndMarkToolLimit state1 maxToolCalls;
          state3 = (if marked
                    then state2\<lparr>History := History state2 @
                           [Some (wrapUpNotice (normalizeMaxToolCalls maxToolCalls))]\<rparr>
                    else state2) in
      (History state3, state3))"

text \<open>The identifiers the response post-handler synthesises for tool calls without one.\<close>

fun synthToolCallIDs :: "golib \<Rightarrow> ToolCall list \<Rightarrow> go_int \<Rightarrow> ToolCall list \<times> go_int" where
  "synthToolCallIDs L [] seq = ([], seq)"
| "synthToolCallIDs L (tc # tcs) seq =
     (if TrimSpace L (ID tc) = []
      then (let (r, seq1) = synthToolCallIDs L tcs (seq + 1) in
            (tc\<lparr>ID := ''call_'' @ itoa (seq + 1)\<rparr> # r, seq1))
      else (let (r, seq1) = synthToolCallIDs L tcs seq in (tc # r, seq1)))"

text \<open>
  The third component of the result is the content handed to \<open>SaveResponse\<close>, if any; a
  failure of that call is logged and does not change the result.
\<close>

definition NewResponseChatModelPostHandler ::
  "golib \<Rightarrow> string \<Rightarrow> msg_ptr \<Rightarrow> AppState \<Rightarrow> error + (msg_ptr \<times> AppState \<times> string option)" where
  "NewResponseChatModelPostHandler L modelName out state =
     (case out of
        None \<Rightarrow> Inl (ErrPanic ''nil pointer dereference'')
      | Some m \<Rightarrow>
          (let (m1, state1) = recordUsageCost modelName m state;
               (calls, seq1) = synthToolCallIDs L (ToolCalls m1) (ToolCallIDSeq state1);
               m2 = m1\<lparr>ToolCalls := calls\<rparr>;
               state2 = state1\<lparr>ToolCallIDSeq := seq1, History := History state1 @ [Some m2]\<rparr>;
               saved = (if Role m2 = Assistant \<and> (ToolCalls m2 = [] \<or> ToolCallLimitReached state2)
                           \<and> TrimSpace L (Content m2) \<noteq> []
                        then Some (Content m2) else None) in
           Inr (Some m2, state2, saved)))"

definition NewToolExecutorCondition :: "msg_ptr \<Rightarrow> AppState \<Rightarrow> error + node" where
  "NewToolExecutorCondition input state =
     (let limitReached = ToolCallLimitReached state in
      if limitReached then Inr END
      else case input of
        None \<Rightarrow> Inl (ErrPanic ''nil pointer dereference'')
      | Some m \<Rightarrow> if ToolCalls m \<noteq> [] then Inr NodeToolExecutor else Inr END)"

definition NewToolExecutorPreHandler :: "go_int \<Rightarrow> msg_ptr \<Rightarrow> AppState \<Rightarrow> msg_ptr \<times> AppState" where
  "NewToolExecutorPreHandler maxToolCalls in0 state =
     (let (exceeded, state1) = incrementToolCallAndCheck state maxToolCalls in (in0, state1))"

section \<open>The graph (package graph)\<close>

record GraphConfig =
  ToolMaxCalls :: go_int
  NLUModelName :: string
  ResponseModelName :: string

text \<open>The step ceiling that \<open>compile\<close> passes to the executor.\<close>

definition maxSteps :: "GraphConfig \<Rightarrow> go_int" where
  "maxSteps config =
     (let m = 10 + ToolMaxCalls config * 2 in if m <s 20 then 20 else m)"

text \<open>
  What a node's body obtains from outside the invocation: the conversation store and the
  prompt renderer behind the input converter and the response assembler, the two chat
  models and the tools node. Each is a function of the step number and of the input it
  is given, with an error or a result.
\<close>

record world =
  w_InputConverter :: "nat \<Rightarrow> QueryInput \<Rightarrow> error + msg_ptr list"
  w_NLUChatModel :: "nat \<Rightarrow> msg_ptr list \<Rightarrow> error + msg_ptr"
  w_ResponseAssembler :: "nat \<Rightarrow> NLUResponse \<Rightarrow> string \<Rightarrow> error + msg_ptr list"
  w_ResponseChatModel :: "nat \<Rightarrow> msg_ptr list \<Rightarrow> error + msg_ptr"
  w_ToolExecutor :: "nat \<Rightarrow> msg_ptr \<Rightarrow> error + msg_ptr list"

definition NewResponseAssemblerNode ::
  "world \<Rightarrow> nat \<Rightarrow> NLUResponse \<Rightarrow> AppState \<Rightarrow> error + msg_ptr list" where
  "NewResponseAssemblerNode W k nluResult state =
     (case NLUAnalysis state of
        None \<Rightarrow> Inl (ErrMsg ''failed to access state: missing NLU analysis in state'')
      | Some a \<Rightarrow> w_ResponseAssembler W k a (ConversationID state))"

text \<open>The values that travel along the edges.\<close>

datatype payload =
    PQuery QueryInput
  | PMessages "msg_ptr list"
  | PMessage msg_ptr
  | PNLU NLUResponse

text \<open>
  One execution of a node as \<open>addNodes\<close>, \<open>addEdges\<close> and \<open>addBranches\<close> wire it: the
  pre-handler, the body, the post-handler, then the successor, which is the target of the
  node's edge (input converter to NLU model to parser, human handoff to \<open>END\<close>, response
  assembler and tool executor to the response model) or what the node's branch condition
  returns (after the parser and after the response model).
\<close>

fun exec_node ::
  "golib \<Rightarrow> GraphConfig \<Rightarrow> world \<Rightarrow> nat \<Rightarrow> node \<Rightarrow> payload \<Rightarrow> AppState
     \<Rightarrow> error + (node \<times> payload \<times> AppState)" where
  "exec_node L config W k NodeInputConverter (PQuery q) s =
     (let (q1, s1) = NewInputConverterPreHandler q s in
      case w_InputConverter W k q1 of
        Inl e \<Rightarrow> Inl e
      | Inr msgs \<Rightarrow> Inr (NodeNLUChatModel, PMessages msgs, s1))"
| "exec_node L config W k NodeNLUChatModel (PMessages msgs) s =
     (case w_NLUChatModel W k msgs of
        Inl e \<Rightarrow> Inl e
      | Inr out \<Rightarrow>
          (let (out1, s1) = NewNLUChatModelPostHandler (NLUModelName config) out s in
           Inr (NodeParser, PMessage out1, s1)))"
| "exec_node L config W k NodeParser (PMessage resp) s =
     (case NewParserNode L resp of
        Inl e \<Rightarrow> Inl e
      | Inr r \<Rightarrow>
          (let (r1, s1) = NewParserPostHandler r s in
           Inr (NewHumanHandoffCondition r1, PNLU r1, s1)))"
| "exec_node L config W k NodeHumanHandoff (PNLU r) s =
     Inr (END, PMessage (Some (NewHumanHandoffNode r)), s)"
| "exec_node L config W k NodeResponseAssembler (PNLU r) s =
     (case NewResponseAssemblerNode W k r s of
        Inl e \<Rightarrow> Inl e
      | Inr msgs \<Rightarrow> Inr (NodeResponseChatModel, PMessages msgs, s))"
| "exec_node L config W k NodeResponseChatModel (PMessages in0) s =
     (let (hist, s1) = NewResponseChatModelPreHandler L (ToolMaxCalls config) in0 s in
      case w_ResponseChatModel W k hist of
        Inl e \<Rightarrow> Inl e
      | Inr out \<Rightarrow>
          (case NewResponseChatModelPostHandler L (ResponseModelName config) out s1 of
             Inl e \<Rightarrow> Inl e
           | Inr (out1, s2, saved) \<Rightarrow>
               (case NewToolExecutorCondition out1 s2 of
                  Inl e \<Rightarrow> Inl e
                | Inr n \<Rightarrow> Inr (n, PMessage out1, s2))))"
| "exec_node L config W k NodeToolExecutor (PMessage in0) s =
     (let (in1, s1) = NewToolExecutorPreHandler (ToolMaxCalls config) in0 s in
      case w_ToolExecutor W k in1 of
        Inl e \<Rightarrow> Inl e
      | Inr msgs \<Rightarrow> Inr (NodeResponseChatModel, PMessages msgs, s1))"
| "exec_node L config W k _ _ s = Inl (ErrMsg ''type mismatch'')"

section \<open>The step executor\<close>

text \<open>
  Modelled from the spec: the graph runner is the external executor library, which is not
  among the sources. Following section 4.2 of the specification it runs one node after
  the other from the entry node, stops with the payload when the successor is the
  terminal marker, propagates the first error of a node, and aborts with the fatal
  step-ceiling error when a further node is due after \<open>limit\<close> step executions. \<open>step\<close>
  executes one node (step number, node, payload, state); the result carries the number of
  step executions made.
\<close>

function run_graph ::
  "(nat \<Rightarrow> node \<Rightarrow> 'p \<Rightarrow> 's \<Rightarrow> error + (node \<times> 'p \<times> 's)) \<Rightarrow> nat \<Rightarrow> nat \<Rightarrow> node \<Rightarrow> 'p \<Rightarrow> 's
     \<Rightarrow> nat \<times> (error + ('p \<times> 's))" where
  "run_graph step limit k n p s =
     (if n = END then (k, Inr (p, s))
      else if limit \<le> k then (k, Inl ErrExceedMaxSteps)
      else case step k n p s of
        Inl e \<Rightarrow> (k + 1, Inl e)
      | Inr (n', p', s') \<Rightarrow> run_graph step limit (k + 1) n' p' s')"
  by pat_completeness auto
termination
  by (relation "measure (\<lambda>(step, limit, k, n, p, s). limit - k)") auto

declare run_graph.simps [simp del]

text \<open>
  Modelled from the spec: the configurations (node due, payload, state) that such a run
  passes through, in order.
\<close>

function run_trace ::
  "(nat \<Rightarrow> node \<Rightarrow> 'p \<Rightarrow> 's \<Rightarrow> error + (node \<times> 'p \<times> 's)) \<Rightarrow> nat \<Rightarrow> nat \<Rightarrow> node \<Rightarrow> 'p \<Rightarrow> 's
     \<Rightarrow> (node \<times> 'p \<times> 's) list" where
  "run_trace step limit k n p s =
     (n, p, s) #
     (if n = END \<or> limit \<le> k then []
      else case step k n p s of
        Inl e \<Rightarrow> []
      | Inr (n', p', s') \<Rightarrow> run_trace step limit (k + 1) n' p' s')"
  by pat_completeness auto
termination
  by (relation "measure (\<lambda>(step, limit, k, n, p, s). limit - k)") auto

declare run_trace.simps [simp del]

text \<open>
  An invocation of the compiled graph: a fresh zero state (\<open>WithGenLocalState\<close>), the
  entry node, and the limit of \<open>compile\<close>.
\<close>

definition zeroState :: AppState where
  "zeroState =
     \<lparr>ConversationID = [], History = [], NLUAnalysis = None, ToolCallCount = 0,
      ToolCallLimitReached = False, ToolCallIDSeq = 0, TotalCostUSD = Fin 0\<rparr>"

definition Invoke ::
  "golib \<Rightarrow> GraphConfig \<Rightarrow> world \<Rightarrow> QueryInput \<Rightarrow> nat \<times> (error + (payload \<times> AppState))" where
  "Invoke L config W q =
     run_graph (exec_node L config W) (nat (sint (maxSteps config))) 0
       NodeInputConverter (PQuery q) zeroState"

definition invocation_trace ::
  "golib \<Rightarrow> GraphConfig \<Rightarrow> world \<Rightarrow> QueryInput \<Rightarrow> (node \<times> payload \<times> AppState) list" where
  "invocation_trace L config W q =
     run_trace (exec_node L config W) (nat (sint (maxSteps config))) 0
       NodeInputConverter (PQuery q) zeroState"

section \<open>Notions used in the statements and proofs\<close>

text \<open>A confidence or priority in the closed unit interval.\<close>

definition inUnit :: "float64 \<Rightarrow> bool" where
  "inUnit v = (case v of Fin c \<Rightarrow> 0 \<le> c \<and> c \<le> 1 | _ \<Rightarrow> False)"

text \<open>
  The specification's primary intent: the maximum-confidence intent, the first one in
  input order among equals, and its name (empty when there is no intent).
\<close>

definition maxConfidenceIntent :: "Intent list \<Rightarrow> Intent option" where
  "maxConfidenceIntent its =
     find (\<lambda>it. list_all (\<lambda>jt. \<not> f_lt (it_Confidence it) (it_Confidence jt)) its) its"

definition primaryIntentOf :: "Intent list \<Rightarrow> string" where
  "primaryIntentOf its = (case maxConfidenceIntent its of None \<Rightarrow> [] | Some it \<Rightarrow> it_Name it)"

text \<open>
  A \<open>float64\<close> that is a binary64 value: an infinity, NaN, or a finite value that
  rounding leaves as it is.
\<close>

definition binary64 :: "float64 \<Rightarrow> bool" where
  "binary64 v = (case v of Fin y \<Rightarrow> round64 y = Fin y | _ \<Rightarrow> True)"

text \<open>
  The records that the loop of \<open>ParseNLUResponse\<close> runs over (its variable
  \<open>records\<close>): the pieces between the record delimiters of the content, after the
  content was cut at the size limit and at the end marker.
\<close>

definition inputRecords :: "string \<Rightarrow> string list" where
  "inputRecords content0 =
     (let content1 = (if maxContentLen < length content0 then take maxContentLen content0
                      else content0);
          content = (case Index content1 endDelim of
                       Some idx \<Rightarrow> take idx content1
                     | None \<Rightarrow> content1) in
      Split content recDelim)"

text \<open>
  A language entry as the conditions of acceptance describe it, for a record as the loop
  hands it to the tuple parser: the record is a tuple of type \<open>language\<close> with at
  least four fields; the entry's code is the code field with surrounding white space
  trimmed and letters lower-cased, and it consists of exactly three lowercase ASCII
  letters; the entry's confidence is what the confidence field parses to (white space
  trimmed, as the parser's \<open>parseFloat\<close> does), a value in [0,1]; and the entry is
  primary iff the flag field, trimmed, is \<open>1\<close>.
\<close>

definition acceptedLanguage :: "golib \<Rightarrow> string \<Rightarrow> Language \<Rightarrow> bool" where
  "acceptedLanguage L rec la =
     (case parseRawTuple L rec of
        Inl e \<Rightarrow> False
      | Inr rt \<Rightarrow>
          Type rt = ''language'' \<and> 4 \<le> length (Parts rt)
          \<and> la_Code la = ToLower L (TrimSpace L (Parts rt ! 1))
          \<and> length (la_Code la) = 3
          \<and> set (la_Code la) \<subseteq> set ''abcdefghijklmnopqrstuvwxyz''
          \<and> ParseFloat L (TrimSpace L (Parts rt ! 2)) = Inr (la_Confidence la)
          \<and> inUnit (la_Confidence la)
          \<and> la_IsPrimary la = (TrimSpace L (Parts rt ! 3) = ''1''))"

text \<open>What the record loop maintains about the intents collected so far.\<close>

definition intents_ok :: "NLUResponse \<Rightarrow> bool" where
  "intents_ok resp =
     (PrimaryIntent resp = [] \<and> list_all (\<lambda>it. inUnit (it_Confidence it)) (Intents resp))"

text \<open>
  The budget invariant of an invocation, for the node that is due and the state it will
  run in; \<open>normalizeMaxToolCalls\<close> of the configured value is the maximum.
\<close>

definition budget_inv :: "GraphConfig \<Rightarrow> node \<Rightarrow> AppState \<Rightarrow> bool" where
  "budget_inv config n s =
     (sint (ToolCallCount s) \<le> sint (normalizeMaxToolCalls (ToolMaxCalls config))
      \<and> (n = NodeToolExecutor \<longrightarrow> \<not> ToolCallLimitReached s
            \<and> sint (ToolCallCount s) < sint (normalizeMaxToolCalls (ToolMaxCalls config)))
      \<and> (n = NodeResponseChatModel \<longrightarrow> \<not> ToolCallLimitReached s)
      \<and> (n \<in> {NodeNLUChatModel, NodeParser, NodeHumanHandoff, NodeResponseAssembler}
            \<longrightarrow> \<not> ToolCallLimitReached s \<and> ToolCallCount s = 0))"

text \<open>
  The model calls of an invocation, each with its node's model name and its (non-nil)
  output message; the state after their post-handlers have run in order; and the totals
  that \<open>ComputeCost\<close> gives for the calls on their own, in the order of the calls (a
  call whose output carries no usage metadata has no cost computed).
\<close>

datatype model_call = NLUCall string Message | ResponseCall string Message

fun afterModelCalls :: "golib \<Rightarrow> model_call list \<Rightarrow> AppState \<Rightarrow> AppState" where
  "afterModelCalls L [] s = s"
| "afterModelCalls L (NLUCall name m # cs) s =
     afterModelCalls L cs (snd (NewNLUChatModelPostHandler name (Some m) s))"
| "afterModelCalls L (ResponseCall name m # cs) s =
     (case NewResponseChatModelPostHandler L name (Some m) s of
        Inr (out, s1, saved) \<Rightarrow> afterModelCalls L cs s1
      | Inl e \<Rightarrow> s)"

definition usageOf :: "Message \<Rightarrow> TokenUsage option" where
  "usageOf m = (case ResponseMeta m of None \<Rightarrow> None | Some rm \<Rightarrow> Usage rm)"

fun callName :: "model_call \<Rightarrow> string" where
  "callName (NLUCall name m) = name"
| "callName (ResponseCall name m) = name"

fun callOutput :: "model_call \<Rightarrow> Message" where
  "callOutput (NLUCall name m) = m"
| "callOutput (ResponseCall name m) = m"

fun callTotals :: "model_call list \<Rightarrow> float64 list" where
  "callTotals [] = []"
| "callTotals (c # cs) =
     (case usageOf (callOutput c) of
        None \<Rightarrow> callTotals cs
      | Some u \<Rightarrow> snd (snd (ComputeCost (Some u) (ResolvePricing (callName c)))) # callTotals cs)"

section \<open>Sample inputs\<close>

text \<open>
  The outside world of the examples: an NLU model that answers with an empty analysis, a
  response model that asks for a tool in every answer, a tool executor that returns no
  message. With it a query, the configuration with a given tool-call budget, and the
  states of the invocation after the input converter and after the parser.
\<close>

abbreviation toolRequest :: Message where
  "toolRequest \<equiv>
     \<lparr>Role = Assistant, Content = [],
      ToolCalls = [\<lparr>ID = ''t1'', FunctionName = ''search_product'', FunctionArguments = ''{}''\<rparr>],
      ToolCallID = [], ResponseMeta = None, Extra = Map.empty\<rparr>"

abbreviation toolHungryWorld :: world where
  "toolHungryWorld \<equiv>
     \<lparr>w_InputConverter = \<lambda>k q. Inr [],
      w_NLUChatModel = \<lambda>k ms. Inr (Some (SystemMessage [])),
      w_ResponseAssembler = \<lambda>k r c. Inr [],
      w_ResponseChatModel = \<lambda>k ms. Inr (Some toolRequest),
      w_ToolExecutor = \<lambda>k m. Inr []\<rparr>"

abbreviation sampleQuery :: QueryInput where
  "sampleQuery \<equiv> \<lparr>qi_ConversationID = ''c'', qi_Query = ''q''\<rparr>"

abbreviation configWithBudget :: "go_int \<Rightarrow> GraphConfig" where
  "configWithBudget t \<equiv>
     \<lparr>ToolMaxCalls = t, NLUModelName = ''gemini-2.5-flash-lite'',
      ResponseModelName = ''gemini-2.5-flash''\<rparr>"

abbreviation startedState :: AppState where
  "startedState \<equiv>
     \<lparr>ConversationID = ''c'', History = [], NLUAnalysis = None, ToolCallCount = 0,
      ToolCallLimitReached = False, ToolCallIDSeq = 0, TotalCostUSD = Fin 0\<rparr>"

abbreviation analysedState :: AppState where
  "analysedState \<equiv>
     \<lparr>ConversationID = ''c'', History = [], NLUAnalysis = Some emptyResponse, ToolCallCount = 0,
      ToolCallLimitReached = False, ToolCallIDSeq = 0, TotalCostUSD = Fin 0\<rparr>"

section \<open>Properties\<close>

subsection \<open>Signed integers and floating-point values\<close>

lemma sint_succ:
  fixes c m :: go_int
  assumes "sint c < sint m"
  shows "sint (c + 1) = sint c + 1"
proof -
  have lo: "- (2 ^ 63) \<le> sint c" using sint_ge [of c] by simp
  have hi: "sint m < 2 ^ 63" using sint_lt [of m] by simp
  have "sint (c + 1) = signed_take_bit 63 (sint c + 1)"
    by (simp add: sint_word_ariths)
  also have "\<dots> = sint c + 1"
    using lo hi assms by (intro signed_take_bit_int_eq_self) auto
  finally show ?thesis .
qed

lemma f_lt_irrefl [simp]: "\<not> f_lt x x"
  by (cases x) simp_all

lemma f_lt_asym: "f_lt x y \<Longrightarrow> \<not> f_lt y x"
  by (cases x; cases y) simp_all

text \<open>The facts that evaluate \<open>round64\<close> on a numeral.\<close>

lemmas round64_eval = round64_def ulp_def pow2_def exponent_def roundEven_def Let_def bitlen.simps

lemma round64_zero [simp]: "round64 0 = Fin 0"
  by (simp add: round64_def)

lemma round64_finite: "\<bar>x\<bar> < 2 ^ 1024 - 2 ^ 970 \<Longrightarrow> \<exists>y. round64 x = Fin y"
  by (simp add: round64_def)

subsection \<open>Rounding to binary64\<close>

text \<open>
  The exponent function is the binary exponent; rounding is symmetric in the sign, stays
  within half a unit in the last place, and returns a value that rounding leaves as it
  is. So every result of an operation is a binary64 value, and adding it to zero returns
  it unchanged.
\<close>

lemma bitlen_bounds: "0 < n \<Longrightarrow> 2 ^ bitlen n \<le> 2 * n \<and> n < 2 ^ bitlen n"
proof (induction n rule: bitlen.induct)
  case (1 n)
  show ?case
  proof (cases "n div 2 = 0")
    case True
    then have "n = 1" using "1.prems" by presburger
    then show ?thesis by (simp add: bitlen.simps)
  next
    case False
    then have IH: "2 ^ bitlen (n div 2) \<le> 2 * (n div 2)" "n div 2 < 2 ^ bitlen (n div 2)"
      using "1.IH" "1.prems" by simp_all
    have b: "bitlen n = Suc (bitlen (n div 2))"
      using "1.prems" by (subst bitlen.simps) simp
    have "2 * (n div 2) \<le> n" by simp
    moreover have "n < 2 * (n div 2 + 1)" by presburger
    ultimately show ?thesis using IH unfolding b by simp
  qed
qed

lemma pow2_powi: "pow2 k = 2 powi k"
proof (cases "0 \<le> k")
  case True
  then show ?thesis by (simp add: pow2_def power_int_def)
next
  case False
  have "inverse (2 :: real) ^ nat (- k) = 1 / 2 ^ nat (- k)"
    by (simp add: power_one_over [symmetric] inverse_eq_divide)
  then show ?thesis using False by (simp add: pow2_def power_int_def)
qed

lemma pow2_pos [simp]: "0 < pow2 k"
  by (simp add: pow2_powi)

lemma pow2_add: "pow2 (a + b) = pow2 a * pow2 b"
  by (simp add: pow2_powi power_int_add)

lemma pow2_less_iff: "pow2 a < pow2 b \<longleftrightarrow> a < b"
proof
  assume "pow2 a < pow2 b"
  show "a < b"
  proof (rule ccontr)
    assume "\<not> a < b"
    then have "b \<le> a" by simp
    then have "pow2 b \<le> pow2 a" unfolding pow2_powi by (intro power_int_increasing) simp_all
    then show False using \<open>pow2 a < pow2 b\<close> by simp
  qed
next
  assume "a < b"
  then show "pow2 a < pow2 b" unfolding pow2_powi by (intro power_int_strict_increasing) simp_all
qed

lemma pow2_le_iff: "pow2 a \<le> pow2 b \<longleftrightarrow> a \<le> b"
  using pow2_less_iff [of b a] by (simp add: not_less [symmetric])

lemma pow2_nat: "pow2 (int n) = 2 ^ n"
  by (simp add: pow2_def)

lemma exponent_bounds:
  assumes "x \<noteq> 0"
  shows "pow2 (exponent x) \<le> \<bar>x\<bar> \<and> \<bar>x\<bar> < pow2 (exponent x + 1)"
proof (cases "1 \<le> \<bar>x\<bar>")
  case True
  let ?n = "nat \<lfloor>\<bar>x\<bar>\<rfloor>"
  have n: "0 < ?n" using True by simp
  have e: "exponent x = int (bitlen ?n) - 1" using True by (simp add: exponent_def)
  have bl: "0 < bitlen ?n" using n by (subst bitlen.simps) simp
  from bitlen_bounds [OF n] have b: "2 ^ bitlen ?n \<le> 2 * ?n" "?n < 2 ^ bitlen ?n" by simp_all
  have e1: "exponent x + 1 = int (bitlen ?n)" using e by simp
  have e0: "exponent x = int (bitlen ?n - 1)" using e bl by simp
  have fl: "real ?n = real_of_int \<lfloor>\<bar>x\<bar>\<rfloor>" using True by simp
  have f1: "real_of_int \<lfloor>\<bar>x\<bar>\<rfloor> \<le> \<bar>x\<bar>" by (rule of_int_floor_le)
  have f2: "\<bar>x\<bar> < real_of_int \<lfloor>\<bar>x\<bar>\<rfloor> + 1" by linarith
  have "(2 :: nat) ^ (bitlen ?n - 1) * 2 = 2 ^ bitlen ?n"
    using bl by (metis power_minus_mult)
  then have h: "(2 :: nat) ^ (bitlen ?n - 1) \<le> ?n" using b(1) by linarith
  have r1: "(2 :: real) ^ (bitlen ?n - 1) = real (2 ^ (bitlen ?n - 1))" by simp
  have r2: "real (2 ^ (bitlen ?n - 1)) \<le> real ?n" using h by (rule of_nat_mono)
  have lo: "pow2 (exponent x) \<le> \<bar>x\<bar>"
    unfolding e0 pow2_nat using r1 r2 fl f1 by linarith
  have h2: "?n + 1 \<le> 2 ^ bitlen ?n" using b(2) by linarith
  have r3: "(2 :: real) ^ bitlen ?n = real (2 ^ bitlen ?n)" by simp
  have r4: "real (?n + 1) \<le> real (2 ^ bitlen ?n)" using h2 by (rule of_nat_mono)
  have r5: "real (?n + 1) = real ?n + 1" by simp
  have hi: "\<bar>x\<bar> < pow2 (exponent x + 1)"
    unfolding e1 pow2_nat using r3 r4 r5 fl f2 by linarith
  show ?thesis using lo hi by simp
next
  case False
  let ?y = "1 / \<bar>x\<bar>"
  let ?m = "\<lceil>?y\<rceil>"
  let ?n = "nat (?m - 1)"
  have x: "0 < \<bar>x\<bar>" "\<bar>x\<bar> < 1" using assms False by simp_all
  have y: "1 < ?y" using x by simp
  have m: "2 \<le> ?m" using y by linarith
  have n: "0 < ?n" using m by simp
  let ?k = "bitlen ?n"
  have e: "exponent x = - int ?k" using False by (simp add: exponent_def)
  have k: "0 < ?k" using n by (subst bitlen.simps) simp
  from bitlen_bounds [OF n] have b: "2 ^ ?k \<le> 2 * ?n" "?n < 2 ^ ?k" by simp_all
  have "0 \<le> ?m - 1" using m by linarith
  then have "real ?n = real_of_int (?m - 1)" by (rule of_nat_nat)
  then have nm: "real ?n = real_of_int ?m - 1" by (simp only: of_int_diff of_int_1)
  have c1: "?y \<le> real_of_int ?m" by (rule le_of_int_ceiling)
  have c2: "real_of_int ?m - 1 < ?y" by linarith
  have h2: "?n + 1 \<le> 2 ^ ?k" using b(2) by linarith
  have r3: "(2 :: real) ^ ?k = real (2 ^ ?k)" by simp
  have r4: "real (?n + 1) \<le> real (2 ^ ?k)" using h2 by (rule of_nat_mono)
  have r5: "real (?n + 1) = real ?n + 1" by simp
  have "?y \<le> 2 ^ ?k" using r3 r4 r5 nm c1 by linarith
  then have "1 / 2 ^ ?k \<le> \<bar>x\<bar>" using x by (simp add: field_simps)
  moreover have "pow2 (exponent x) = 1 / 2 ^ ?k"
    unfolding e by (simp add: pow2_powi power_int_minus_divide)
  ultimately have lo: "pow2 (exponent x) \<le> \<bar>x\<bar>"
    by (simp only:)
  have "(2 :: nat) ^ (?k - 1) * 2 = 2 ^ ?k" using k by (metis power_minus_mult)
  then have h: "(2 :: nat) ^ (?k - 1) \<le> ?n" using b(1) by linarith
  have r1: "(2 :: real) ^ (?k - 1) = real (2 ^ (?k - 1))" by simp
  have r2: "real (2 ^ (?k - 1)) \<le> real ?n" using h by (rule of_nat_mono)
  have "2 ^ (?k - 1) < ?y" using r1 r2 nm c2 by linarith
  then have "\<bar>x\<bar> < 1 / 2 ^ (?k - 1)" using x by (simp add: field_simps)
  moreover have "pow2 (exponent x + 1) = 1 / 2 ^ (?k - 1)"
  proof -
    have "exponent x + 1 = - int (?k - 1)" using e k by simp
    then show ?thesis by (simp add: pow2_powi power_int_minus_divide)
  qed
  ultimately have hi: "\<bar>x\<bar> < pow2 (exponent x + 1)" by (simp only:)
  show ?thesis using lo hi by simp
qed

lemma exponent_unique:
  assumes "pow2 k \<le> \<bar>y\<bar>" and "\<bar>y\<bar> < pow2 (k + 1)"
  shows "exponent y = k"
proof -
  have "0 < pow2 k" by simp
  then have "0 < \<bar>y\<bar>" using assms(1) by linarith
  then have "y \<noteq> 0" by simp
  from exponent_bounds [OF this]
  have b: "pow2 (exponent y) \<le> \<bar>y\<bar>" "\<bar>y\<bar> < pow2 (exponent y + 1)" by simp_all
  have "pow2 (exponent y) < pow2 (k + 1)" using b(1) assms(2) by simp
  then have "exponent y < k + 1" by (simp only: pow2_less_iff)
  moreover have "pow2 k < pow2 (exponent y + 1)" using b(2) assms(1) by simp
  then have "k < exponent y + 1" by (simp only: pow2_less_iff)
  ultimately show ?thesis by simp
qed


lemma roundEven_cases: "roundEven q = \<lfloor>q\<rfloor> \<or> roundEven q = \<lfloor>q\<rfloor> + 1"
  by (simp add: roundEven_def Let_def)

lemma roundEven_of_int [simp]: "roundEven (of_int n) = n"
  by (simp add: roundEven_def Let_def)

lemma roundEven_near: "\<bar>of_int (roundEven q) - q\<bar> \<le> 1 / 2"
proof -
  have "of_int \<lfloor>q\<rfloor> \<le> q" "q < of_int \<lfloor>q\<rfloor> + 1" by linarith+
  then show ?thesis by (auto simp: roundEven_def Let_def)
qed

lemma roundEven_ge: "of_int a \<le> q \<Longrightarrow> a \<le> roundEven q"
proof -
  assume "of_int a \<le> q"
  then have "a \<le> \<lfloor>q\<rfloor>" by (simp add: le_floor_iff)
  then show ?thesis using roundEven_cases [of q] by auto
qed

lemma roundEven_le: "q \<le> of_int b \<Longrightarrow> roundEven q \<le> b"
proof (cases "q = of_int b")
  case True
  then show ?thesis by simp
next
  case False
  assume "q \<le> of_int b"
  then have "q < of_int b" using False by simp
  then have "\<lfloor>q\<rfloor> < b" by (simp add: floor_less_iff)
  then show ?thesis using roundEven_cases [of q] by auto
qed

lemma roundEven_minus: "roundEven (- q) = - roundEven q"
proof (cases "q = of_int \<lfloor>q\<rfloor>")
  case True
  then obtain n where "q = of_int n" by metis
  then have "roundEven q = n" "roundEven (- q) = - n"
    using roundEven_of_int [of "- n"] by simp_all
  then show ?thesis by simp
next
  case False
  have fl: "of_int \<lfloor>q\<rfloor> \<le> q" "q < of_int \<lfloor>q\<rfloor> + 1" by linarith+
  have ne: "of_int \<lfloor>q\<rfloor> \<noteq> q" using False by metis
  have lt: "of_int \<lfloor>q\<rfloor> < q" using ne fl(1) by (rule order.not_eq_order_implies_strict)
  have c: "\<lceil>q\<rceil> = \<lfloor>q\<rfloor> + 1" using lt fl(2) by (simp add: ceiling_unique)
  have m: "\<lfloor>- q\<rfloor> = - \<lfloor>q\<rfloor> - 1" unfolding floor_minus c by simp
  let ?f = "\<lfloor>q\<rfloor>"
  let ?r = "q - of_int ?f"
  have r': "- q - of_int (- ?f - 1) = 1 - ?r" by simp
  have ev: "even (- ?f - 1) \<longleftrightarrow> \<not> even ?f" by simp
  consider "?r < 1 / 2" | "1 / 2 < ?r" | "?r = 1 / 2" by linarith
  then show ?thesis
  proof cases
    case 1
    then have "roundEven q = ?f" by (simp add: roundEven_def Let_def)
    moreover have "roundEven (- q) = - ?f"
      unfolding roundEven_def Let_def m r' using 1 by simp
    ultimately show ?thesis by simp
  next
    case 2
    then have "roundEven q = ?f + 1" by (simp add: roundEven_def Let_def)
    moreover have "roundEven (- q) = - ?f - 1"
      unfolding roundEven_def Let_def m r' using 2 by simp
    ultimately show ?thesis by simp
  next
    case 3
    then have "roundEven q = (if even ?f then ?f else ?f + 1)" by (simp add: roundEven_def Let_def)
    moreover have "roundEven (- q) = (if even ?f then - ?f else - ?f - 1)"
      unfolding roundEven_def Let_def m r' using 3 ev by simp
    ultimately show ?thesis by simp
  qed
qed

lemma exponent_minus [simp]: "exponent (- x) = exponent x"
  by (simp add: exponent_def)

lemma ulp_minus [simp]: "ulp (- x) = ulp x"
  by (simp add: ulp_def)

lemma ulp_pos [simp]: "0 < ulp x"
  by (simp add: ulp_def)

lemma ulp_nonneg [simp]: "0 \<le> ulp x"
  using ulp_pos [of x] by (rule less_imp_le)

lemma pow2_nonneg [simp]: "0 \<le> pow2 k"
  using pow2_pos [of k] by (rule less_imp_le)

lemma ulp_neq0 [simp]: "ulp x \<noteq> 0"
  by (metis ulp_pos less_irrefl)

lemma pow2_neq0 [simp]: "pow2 k \<noteq> 0"
  by (metis pow2_pos less_irrefl)

lemma round64_minus: "round64 (- x) = f_neg (round64 x)"
  by (simp add: round64_def roundEven_minus)


lemma pow2_split: "b + c = a \<Longrightarrow> pow2 a = pow2 b * pow2 c"
  using pow2_add [of b c] by simp

lemma pow2_52: "pow2 52 = of_int (2 ^ 52)" "pow2 53 = of_int (2 ^ 53)"
  by (simp_all add: pow2_def)

lemma round64_idem_pos:
  assumes x: "0 < x" and r: "round64 x = Fin y"
  shows "round64 y = Fin y"
proof -
  let ?M = "(2 :: real) ^ 1024 - 2 ^ 970"
  let ?u = "ulp x"
  let ?q = "x / ?u"
  let ?n = "roundEven ?q"
  let ?e = "exponent x"
  have xM: "x < ?M" using r x by (simp add: round64_def split: if_splits)
  have y: "y = of_int ?n * ?u" using r x xM by (simp add: round64_def)
  have eb: "pow2 ?e \<le> x" "x < pow2 (?e + 1)" using exponent_bounds [of x] x by simp_all
  have "0 \<le> ?q" by (rule divide_nonneg_pos) (use x in simp_all)
  then have q0: "of_int 0 \<le> ?q" by simp
  have n0: "0 \<le> ?n" using roundEven_ge [OF q0] .
  show ?thesis
  proof (cases "?n = 0")
    case True
    then have "y = 0" using y by simp
    then show ?thesis by (simp add: round64_def)
  next
    case False
    then have n1: "1 \<le> ?n" using n0 by simp
    then have "(1 :: real) \<le> of_int ?n" by (simp only: of_int_1_le_iff)
    then have ypos: "0 < y" unfolding y by (simp add: zero_less_mult_iff)
    have key: "y < ?M \<and> of_int (roundEven (y / ulp y)) * ulp y = y"
    proof (cases "- 1022 \<le> ?e")
      case normal: True
      have u: "?u = pow2 (?e - 52)" using normal by (simp add: ulp_def max_def)
      have pe: "pow2 ?e = pow2 52 * ?u" unfolding u by (rule pow2_split) simp
      have pe1: "pow2 (?e + 1) = pow2 53 * ?u" unfolding u by (rule pow2_split) simp
      have ql: "of_int (2 ^ 52) \<le> ?q"
        using eb(1) unfolding pe pow2_52 by (simp add: pos_le_divide_eq)
      have qh: "?q < of_int (2 ^ 53)"
        using eb(2) unfolding pe1 pow2_52 by (simp add: pos_divide_less_eq)
      have nl: "2 ^ 52 \<le> ?n" using roundEven_ge [OF ql] .
      have nh: "?n \<le> 2 ^ 53" using roundEven_le [of ?q "2 ^ 53"] qh by simp
      have "?M < pow2 1024" by (simp add: pow2_def)
      then have "pow2 ?e < pow2 1024" using eb(1) xM by linarith
      then have e1023: "?e \<le> 1023" by (simp add: pow2_less_iff)
      show ?thesis
      proof (cases "?n < 2 ^ 53")
        case True
        have "real_of_int (2 ^ 52) \<le> of_int ?n" using nl by (simp only: of_int_le_iff)
        then have yl: "pow2 ?e \<le> y" unfolding y pe pow2_52
          by (intro mult_right_mono) simp_all
        have "real_of_int ?n < of_int (2 ^ 53)" using True by (simp only: of_int_less_iff)
        then have yh: "y < pow2 (?e + 1)" unfolding y pe1 pow2_52
          by (intro mult_strict_right_mono) simp_all
        have ey: "exponent y = ?e" using exponent_unique [of ?e y] yl yh ypos by simp
        have uy: "ulp y = ?u" by (simp add: ulp_def ey)
        have d: "y / ?u = of_int ?n" unfolding y by simp
        have ii: "of_int (roundEven (y / ulp y)) * ulp y = y"
          unfolding uy d roundEven_of_int by (simp add: y)
        have "?n \<le> 2 ^ 53 - 1" using True by simp
        then have a: "real_of_int ?n \<le> of_int (2 ^ 53 - 1)" by (simp only: of_int_le_iff)
        have b: "?u \<le> pow2 971" unfolding u using e1023 by (simp add: pow2_le_iff)
        have "y \<le> of_int (2 ^ 53 - 1) * pow2 971" unfolding y
          using a b by (intro mult_mono) simp_all
        moreover have "real_of_int (2 ^ 53 - 1) * pow2 971 < ?M" by (simp add: pow2_def)
        ultimately have i: "y < ?M" by linarith
        show ?thesis using i ii by simp
      next
        case False
        then have n53: "?n = 2 ^ 53" using nh by simp
        have yv: "y = pow2 (?e + 1)" unfolding y n53 pe1 pow2_52 by simp
        have near: "real_of_int ?n - 1 / 2 \<le> ?q" using roundEven_near [of ?q] by linarith
        have e1022: "?e \<le> 1022"
        proof (rule ccontr)
          assume "\<not> ?e \<le> 1022"
          then have "?e = 1023" using e1023 by simp
          then have u971: "?u = pow2 971" using u by simp
          have "(real_of_int (2 ^ 53) - 1 / 2) * ?u \<le> ?q * ?u"
            using near unfolding n53 by (intro mult_right_mono) simp_all
          moreover have "?q * ?u = x" by simp
          moreover have "(real_of_int (2 ^ 53) - 1 / 2) * pow2 971 = ?M" by (simp add: pow2_def)
          ultimately show False using xM unfolding u971 by linarith
        qed
        have "pow2 (?e + 1) < pow2 (?e + 1 + 1)" by (simp add: pow2_less_iff)
        then have ey: "exponent y = ?e + 1"
          using exponent_unique [of "?e + 1" y] ypos unfolding yv by simp
        have uy: "ulp y = pow2 (?e + 1 - 52)" using normal by (simp add: ulp_def ey max_def)
        have sp: "pow2 (?e + 1) = pow2 52 * pow2 (?e + 1 - 52)"
          by (rule pow2_split) simp
        have "y / ulp y = of_int (2 ^ 52)" unfolding uy unfolding yv sp pow2_52 by simp
        then have "of_int (roundEven (y / ulp y)) * ulp y = of_int (2 ^ 52) * ulp y"
          by (simp only: roundEven_of_int)
        also have "\<dots> = y" unfolding uy unfolding yv sp pow2_52 by simp
        finally have ii: "of_int (roundEven (y / ulp y)) * ulp y = y" .
        have "pow2 (?e + 1) \<le> pow2 1023" using e1022 by (simp add: pow2_le_iff)
        moreover have "pow2 1023 < ?M" by (simp add: pow2_def)
        ultimately have i: "y < ?M" unfolding yv by linarith
        show ?thesis using i ii by simp
      qed
    next
      case sub: False
      have u: "?u = pow2 (- 1074)" using sub by (simp add: ulp_def max_def)
      have "pow2 (?e + 1) \<le> pow2 (- 1022)" using sub by (simp add: pow2_le_iff)
      then have xs: "x < pow2 (- 1022)" using eb(2) by linarith
      have p: "pow2 (- 1022) = pow2 52 * ?u" unfolding u by (rule pow2_split) simp
      have qh: "?q \<le> of_int (2 ^ 52)"
        using xs unfolding p pow2_52 by (simp add: pos_divide_le_eq)
      have nh: "?n \<le> 2 ^ 52" using roundEven_le [OF qh] .
      then have "real_of_int ?n \<le> of_int (2 ^ 52)" by (simp only: of_int_le_iff)
      then have yh: "y \<le> pow2 (- 1022)" unfolding y p pow2_52
        by (intro mult_right_mono) simp_all
      have "pow2 (exponent y) \<le> pow2 (- 1022)"
        using exponent_bounds [of y] ypos yh by simp
      then have "exponent y \<le> - 1022" by (simp only: pow2_le_iff)
      then have "ulp y = pow2 (- 1074)" by (simp add: ulp_def max_def)
      then have uy: "ulp y = ?u" by (simp only: u)
      have d: "y / ?u = of_int ?n" unfolding y by simp
        have ii: "of_int (roundEven (y / ulp y)) * ulp y = y"
          unfolding uy d roundEven_of_int by (simp add: y)
      have "pow2 (- 1022) < ?M" by (simp add: pow2_def)
      then have i: "y < ?M" using yh by linarith
      show ?thesis using i ii by simp
    qed
    then show ?thesis using ypos by (simp add: round64_def)
  qed
qed

lemma round64_idem: "round64 x = Fin y \<Longrightarrow> round64 y = Fin y"
proof -
  assume r: "round64 x = Fin y"
  consider "x = 0" | "0 < x" | "x < 0" by linarith
  then show ?thesis
  proof cases
    case 1
    then show ?thesis using r by (simp add: round64_def)
  next
    case 2
    then show ?thesis using r by (rule round64_idem_pos)
  next
    case 3
    then have "0 < - x" by simp
    moreover have "round64 (- x) = Fin (- y)" using r by (simp add: round64_minus)
    ultimately have "round64 (- y) = Fin (- y)" by (rule round64_idem_pos)
    then have "f_neg (round64 y) = Fin (- y)" by (simp add: round64_minus)
    then show ?thesis by (cases "round64 y") simp_all
  qed
qed

lemma round64_error:
  assumes "\<bar>x\<bar> < 2 ^ 1024 - 2 ^ 970"
  shows "\<exists>y. round64 x = Fin y \<and> \<bar>y - x\<bar> \<le> ulp x / 2"
proof (cases "x = 0")
  case True
  then show ?thesis by (simp add: round64_def)
next
  case False
  let ?u = "ulp x"
  let ?n = "roundEven (x / ?u)"
  have r: "round64 x = Fin (of_int ?n * ?u)" using False assms by (simp add: round64_def)
  have "of_int ?n * ?u - x = (of_int ?n - x / ?u) * ?u" by (simp add: field_simps)
  then have "\<bar>of_int ?n * ?u - x\<bar> = \<bar>of_int ?n - x / ?u\<bar> * ?u" by (simp add: abs_mult)
  also have "\<dots> \<le> 1 / 2 * ?u" using roundEven_near [of "x / ?u"] by (intro mult_right_mono) simp_all
  finally show ?thesis using r by simp
qed

lemma round64_binary64 [simp]: "binary64 (round64 x)"
  by (cases "round64 x") (simp_all add: binary64_def round64_idem)

lemma f_add_binary64 [simp]: "binary64 (f_add a b)"
  by (cases a; cases b) (simp_all add: binary64_def [of PosInf] binary64_def [of NegInf]
      binary64_def [of NaN])

lemma f_add_zero_left: "binary64 t \<Longrightarrow> f_add (Fin 0) t = t"
  by (cases t) (simp_all add: binary64_def)

text \<open>
  The threshold of the handoff condition: a binary64 value exceeds the decimal 0.94 iff it
  exceeds the binary64 constant 0.94, so the comparison with the decimal value is the
  comparison that the program makes.
\<close>

lemma threshold_094:
  assumes b: "binary64 (Fin c)"
  shows "0.94 < c \<longleftrightarrow> (\<exists>d. round64 0.94 = Fin d \<and> d < c)"
proof -
  let ?d = "2116691824864133 / 2 ^ 51 :: real"
  have r: "round64 0.94 = Fin ?d" by (simp add: round64_eval)
  have d: "?d < 0.94" by simp
  have gt: "0.94 < c" if dc: "?d < c"
  proof (rule ccontr)
    assume "\<not> 0.94 < c"
    then have c94: "c \<le> 0.94" by simp
    have "pow2 (- 1) \<le> \<bar>c\<bar>" "\<bar>c\<bar> < pow2 (- 1 + 1)"
      using dc c94 by (simp_all add: pow2_def)
    then have e: "exponent c = - 1" by (rule exponent_unique)
    have u: "ulp c = 1 / 2 ^ 53" by (simp add: ulp_def e pow2_def)
    have c0: "c \<noteq> 0" using dc by auto
    have cM: "\<not> 2 ^ 1024 - 2 ^ 970 \<le> \<bar>c\<bar>" using dc c94 by simp
    define k where "k = roundEven (c / ulp c)"
    have rc: "round64 c = Fin c" using b by (simp add: binary64_def)
    have e2: "round64 c = Fin (of_int k * ulp c)"
      unfolding k_def using c0 cM by (simp add: round64_def)
    have "Fin c = Fin (of_int k * ulp c)" by (rule trans [OF rc [symmetric] e2])
    then have "c = of_int k * ulp c" by (simp only: float64.inject)
    then have ck: "c = of_int k / 2 ^ 53" unfolding u by simp
    have "?d < of_int k / 2 ^ 53" using dc ck by simp
    then have "real_of_int 8466767299456532 < of_int k"
      by (simp add: field_simps)
    then have "8466767299456532 < k" by (simp only: of_int_less_iff)
    then have "8466767299456533 \<le> k" by simp
    then have "real_of_int 8466767299456533 \<le> of_int k" by (simp only: of_int_le_iff)
    then have "8466767299456533 / 2 ^ 53 \<le> of_int k / (2 ^ 53 :: real)"
      by (simp add: field_simps)
    then have "8466767299456533 / 2 ^ 53 \<le> c" using ck by simp
    then show False using c94 by simp
  qed
  show ?thesis
  proof
    assume "0.94 < c"
    then have "?d < c" using d by linarith
    then show "\<exists>d. round64 0.94 = Fin d \<and> d < c" using r by blast
  next
    assume "\<exists>d. round64 0.94 = Fin d \<and> d < c"
    then obtain d' where "round64 0.94 = Fin d'" "d' < c" by blast
    then have "?d < c" using r by simp
    then show "0.94 < c" by (rule gt)
  qed
qed

lemma handoff_threshold_binary64:
  "binary64 v \<Longrightarrow> f_gt v (Fin 0.94) = f_gt v (round64 0.94)"
proof (cases v)
  case (Fin c)
  assume "binary64 v"
  then have "0.94 < c \<longleftrightarrow> (\<exists>d. round64 0.94 = Fin d \<and> d < c)"
    unfolding Fin by (rule threshold_094)
  moreover have "\<exists>d. round64 0.94 = Fin d" by (simp add: round64_def)
  ultimately show ?thesis unfolding Fin by (auto simp: f_gt_def)
qed (simp_all add: f_gt_def round64_def)

subsection \<open>The tool-call budget\<close>

lemma normalize_pos: "0 < sint (normalizeMaxToolCalls n)"
  by (simp add: normalizeMaxToolCalls_def DefaultMaxToolCalls_def word_sle_eq)

lemma sint_succ_below_max:
  fixes c :: go_int
  assumes "sint c < 2 ^ 63 - 1"
  shows "sint (c + 1) = sint c + 1"
proof -
  have m: "sint (2 ^ 63 - 1 :: go_int) = 2 ^ 63 - 1" by simp
  show ?thesis using sint_succ [of c "2 ^ 63 - 1"] assms m by simp
qed

text \<open>
  C10. A configured maximum that is zero or negative is replaced by the default 10 and a
  positive one is used unchanged, and the normalised value is the limit of both budget
  checks. The pre-response limit check reports and marks the limit iff the flag is not
  yet set and the count has reached the limit, and changes nothing else. The
  tool-execution increment always adds one to the count (in 64-bit arithmetic, which is
  the integer successor below the largest \<open>int\<close>), and reports and marks the limit iff
  the new count exceeds the limit. So with a zero or negative configuration the two
  checks are those of the limit 10: tool calls below the tenth pass the increment (tool
  calling is not disabled) and the eleventh is reported (it is not unlimited); with a
  positive configuration they are those of the configured value.
\<close>

theorem normalizeMaxToolCalls_budget:
  "(sint n \<le> 0 \<longrightarrow>
      normalizeMaxToolCalls n = 10
      \<and> checkAndMarkToolLimit s n =
          (if \<not> ToolCallLimitReached s \<and> 10 \<le> sint (ToolCallCount s)
           then (True, s\<lparr>ToolCallLimitReached := True\<rparr>) else (False, s))
      \<and> incrementToolCallAndCheck s n =
          (if 10 < sint (ToolCallCount s + 1)
           then (True, s\<lparr>ToolCallCount := ToolCallCount s + 1, ToolCallLimitReached := True\<rparr>)
           else (False, s\<lparr>ToolCallCount := ToolCallCount s + 1\<rparr>))
      \<and> (sint (ToolCallCount s) < 10 \<longrightarrow> \<not> fst (incrementToolCallAndCheck s n))
      \<and> (sint (ToolCallCount s) = 10 \<longrightarrow> fst (incrementToolCallAndCheck s n)))
   \<and> (0 < sint n \<longrightarrow>
      normalizeMaxToolCalls n = n
      \<and> checkAndMarkToolLimit s n =
          (if \<not> ToolCallLimitReached s \<and> sint n \<le> sint (ToolCallCount s)
           then (True, s\<lparr>ToolCallLimitReached := True\<rparr>) else (False, s))
      \<and> incrementToolCallAndCheck s n =
          (if sint n < sint (ToolCallCount s + 1)
           then (True, s\<lparr>ToolCallCount := ToolCallCount s + 1, ToolCallLimitReached := True\<rparr>)
           else (False, s\<lparr>ToolCallCount := ToolCallCount s + 1\<rparr>)))
   \<and> (sint (ToolCallCount s) < 2 ^ 63 - 1 \<longrightarrow>
        sint (ToolCallCount s + 1) = sint (ToolCallCount s) + 1)
   \<and> checkAndMarkToolLimit s n = checkAndMarkToolLimit s (normalizeMaxToolCalls n)
   \<and> incrementToolCallAndCheck s n = incrementToolCallAndCheck s (normalizeMaxToolCalls n)
   \<and> 0 < sint (normalizeMaxToolCalls n)"
proof -
  have inc: "sint (ToolCallCount s + 1) = sint (ToolCallCount s) + 1"
    if "sint (ToolCallCount s) < 2 ^ 63 - 1"
    using that by (rule sint_succ_below_max)
  have a: "normalizeMaxToolCalls n = 10
      \<and> checkAndMarkToolLimit s n =
          (if \<not> ToolCallLimitReached s \<and> 10 \<le> sint (ToolCallCount s)
           then (True, s\<lparr>ToolCallLimitReached := True\<rparr>) else (False, s))
      \<and> incrementToolCallAndCheck s n =
          (if 10 < sint (ToolCallCount s + 1)
           then (True, s\<lparr>ToolCallCount := ToolCallCount s + 1, ToolCallLimitReached := True\<rparr>)
           else (False, s\<lparr>ToolCallCount := ToolCallCount s + 1\<rparr>))" if "sint n \<le> 0"
    using that by (simp add: normalizeMaxToolCalls_def DefaultMaxToolCalls_def
        checkAndMarkToolLimit_def incrementToolCallAndCheck_def word_sle_eq word_sless_alt Let_def)
  have a1: "\<not> fst (incrementToolCallAndCheck s n)" if "sint n \<le> 0" "sint (ToolCallCount s) < 10"
    using a [OF that(1)] inc that(2) by simp
  have a2: "fst (incrementToolCallAndCheck s n)" if "sint n \<le> 0" "sint (ToolCallCount s) = 10"
    using a [OF that(1)] inc that(2) by simp
  have b: "normalizeMaxToolCalls n = n
      \<and> checkAndMarkToolLimit s n =
          (if \<not> ToolCallLimitReached s \<and> sint n \<le> sint (ToolCallCount s)
           then (True, s\<lparr>ToolCallLimitReached := True\<rparr>) else (False, s))
      \<and> incrementToolCallAndCheck s n =
          (if sint n < sint (ToolCallCount s + 1)
           then (True, s\<lparr>ToolCallCount := ToolCallCount s + 1, ToolCallLimitReached := True\<rparr>)
           else (False, s\<lparr>ToolCallCount := ToolCallCount s + 1\<rparr>))" if "0 < sint n"
    using that by (simp add: normalizeMaxToolCalls_def DefaultMaxToolCalls_def
        checkAndMarkToolLimit_def incrementToolCallAndCheck_def word_sle_eq word_sless_alt Let_def)
  have e: "checkAndMarkToolLimit s n = checkAndMarkToolLimit s (normalizeMaxToolCalls n)
   \<and> incrementToolCallAndCheck s n = incrementToolCallAndCheck s (normalizeMaxToolCalls n)"
    by (simp add: normalizeMaxToolCalls_def DefaultMaxToolCalls_def checkAndMarkToolLimit_def
        incrementToolCallAndCheck_def word_sle_eq)
  show ?thesis
    using a a1 a2 b inc e normalize_pos [of n] by blast
qed

text \<open>
  With the maximum 3 and the count 3 the limit check marks the limit and the increment
  reports it; with the maximum 0 or \<open>-3\<close> the same state passes both, and the limit is
  marked at the count 10.
\<close>

theorem normalizeMaxToolCalls_budget_witness:
  "normalizeMaxToolCalls 0 = 10 \<and> normalizeMaxToolCalls (- 3) = 10 \<and> normalizeMaxToolCalls 3 = 3
   \<and> checkAndMarkToolLimit (zeroState\<lparr>ToolCallCount := 3\<rparr>) 3
       = (True, zeroState\<lparr>ToolCallCount := 3, ToolCallLimitReached := True\<rparr>)
   \<and> checkAndMarkToolLimit (zeroState\<lparr>ToolCallCount := 3\<rparr>) 0
       = (False, zeroState\<lparr>ToolCallCount := 3\<rparr>)
   \<and> checkAndMarkToolLimit (zeroState\<lparr>ToolCallCount := 10\<rparr>) (- 3)
       = (True, zeroState\<lparr>ToolCallCount := 10, ToolCallLimitReached := True\<rparr>)
   \<and> incrementToolCallAndCheck (zeroState\<lparr>ToolCallCount := 3\<rparr>) 3
       = (True, zeroState\<lparr>ToolCallCount := 4, ToolCallLimitReached := True\<rparr>)
   \<and> incrementToolCallAndCheck (zeroState\<lparr>ToolCallCount := 2\<rparr>) 3
       = (False, zeroState\<lparr>ToolCallCount := 3\<rparr>)
   \<and> incrementToolCallAndCheck (zeroState\<lparr>ToolCallCount := 3\<rparr>) 0
       = (False, zeroState\<lparr>ToolCallCount := 4\<rparr>)
   \<and> incrementToolCallAndCheck (zeroState\<lparr>ToolCallCount := 10\<rparr>) (- 3)
       = (True, zeroState\<lparr>ToolCallCount := 11, ToolCallLimitReached := True\<rparr>)"
  using normalizeMaxToolCalls_budget [of 0 "zeroState\<lparr>ToolCallCount := 3\<rparr>"]
    normalizeMaxToolCalls_budget [of "- 3" "zeroState\<lparr>ToolCallCount := 10\<rparr>"]
    normalizeMaxToolCalls_budget [of 3 "zeroState\<lparr>ToolCallCount := 3\<rparr>"]
    normalizeMaxToolCalls_budget [of 3 "zeroState\<lparr>ToolCallCount := 2\<rparr>"]
  by (simp add: zeroState_def)

text \<open>
  C2. After the response model, the branch routes to \<open>END\<close> whenever
  \<open>ToolCallLimitReached\<close> is set, whatever tool calls the output message carries;
  otherwise it routes to the tool executor iff the message carries at least one tool call,
  and to \<open>END\<close> if it carries none.
\<close>

theorem tool_executor_condition_routes:
  "NewToolExecutorCondition (Some m) s =
     Inr (if ToolCallLimitReached s then END
          else if ToolCalls m \<noteq> [] then NodeToolExecutor else END)"
  by (simp add: NewToolExecutorCondition_def)

theorem tool_executor_condition_routes_witness:
  "NewToolExecutorCondition
     (Some \<lparr>Role = Assistant, Content = [], ToolCalls = [\<lparr>ID = ''call_1'', FunctionName = ''search_product'',
         FunctionArguments = ''{}''\<rparr>], ToolCallID = [], ResponseMeta = None, Extra = Map.empty\<rparr>)
     (zeroState\<lparr>ToolCallLimitReached := True\<rparr>) = Inr END
   \<and> NewToolExecutorCondition
     (Some \<lparr>Role = Assistant, Content = [], ToolCalls = [\<lparr>ID = ''call_1'', FunctionName = ''search_product'',
         FunctionArguments = ''{}''\<rparr>], ToolCallID = [], ResponseMeta = None, Extra = Map.empty\<rparr>)
     zeroState = Inr NodeToolExecutor
   \<and> NewToolExecutorCondition (Some (SystemMessage ''done'')) zeroState = Inr END"
  using tool_executor_condition_routes [of "\<lparr>Role = Assistant, Content = [], ToolCalls = [\<lparr>ID = ''call_1'', FunctionName = ''search_product'',
         FunctionArguments = ''{}''\<rparr>], ToolCallID = [], ResponseMeta = None, Extra = Map.empty\<rparr>" "zeroState\<lparr>ToolCallLimitReached := True\<rparr>"]
    tool_executor_condition_routes [of "\<lparr>Role = Assistant, Content = [], ToolCalls = [\<lparr>ID = ''call_1'', FunctionName = ''search_product'',
         FunctionArguments = ''{}''\<rparr>], ToolCallID = [], ResponseMeta = None, Extra = Map.empty\<rparr>" zeroState]
    tool_executor_condition_routes [of "SystemMessage ''done''" zeroState]
  by (simp add: zeroState_def SystemMessage_def)

subsection \<open>The graph and its executor\<close>

lemma run_trace_END: "run_trace step limit k END p s = [(END, p, s)]"
  by (simp add: run_trace.simps)

lemma recordUsageCost_budget:
  "recordUsageCost name m s = (m', s') \<Longrightarrow>
     ToolCallCount s' = ToolCallCount s \<and> ToolCallLimitReached s' = ToolCallLimitReached s"
  by (auto simp: recordUsageCost_def Let_def split: option.splits if_splits prod.splits)

lemma NLUPost_budget:
  "NewNLUChatModelPostHandler name out s = (out', s') \<Longrightarrow>
     ToolCallCount s' = ToolCallCount s \<and> ToolCallLimitReached s' = ToolCallLimitReached s"
  by (auto simp: NewNLUChatModelPostHandler_def split: option.splits prod.splits
      dest: recordUsageCost_budget)

lemma ResponsePost_budget:
  "NewResponseChatModelPostHandler L name out s = Inr (out', s', saved) \<Longrightarrow>
     ToolCallCount s' = ToolCallCount s \<and> ToolCallLimitReached s' = ToolCallLimitReached s"
  by (auto simp: NewResponseChatModelPostHandler_def Let_def split: option.splits prod.splits
      dest: recordUsageCost_budget)

lemma ResponsePre_budget:
  "NewResponseChatModelPreHandler L mx in0 s = (hist, s') \<Longrightarrow>
     ToolCallCount s' = ToolCallCount s \<and>
     ToolCallLimitReached s' =
       (ToolCallLimitReached s \<or> sint (normalizeMaxToolCalls mx) \<le> sint (ToolCallCount s))"
  by (auto simp: NewResponseChatModelPreHandler_def checkAndMarkToolLimit_def Let_def word_sle_eq
      split: if_splits)

lemma exec_node_budget_inv:
  assumes "exec_node L config W k n p s = Inr (n', p', s')" and "budget_inv config n s"
  shows "budget_inv config n' s'"
proof (cases n)
  case NodeInputConverter
  then show ?thesis using assms normalize_pos [of "ToolMaxCalls config"]
    by (cases p) (auto simp: budget_inv_def NewInputConverterPreHandler_def Let_def split: sum.splits)
next
  case NodeNLUChatModel
  then show ?thesis using assms
    by (cases p) (auto simp: budget_inv_def split: sum.splits prod.splits dest!: NLUPost_budget)
next
  case NodeParser
  then show ?thesis using assms
    by (cases p) (auto simp: budget_inv_def NewParserPostHandler_def NewHumanHandoffCondition_def Let_def
        split: sum.splits prod.splits if_splits)
next
  case NodeHumanHandoff
  then show ?thesis using assms by (cases p) (auto simp: budget_inv_def)
next
  case NodeResponseAssembler
  then show ?thesis using assms normalize_pos [of "ToolMaxCalls config"]
    by (cases p) (auto simp: budget_inv_def split: sum.splits)
next
  case NodeResponseChatModel
  then show ?thesis using assms
    by (cases p) (auto simp: budget_inv_def NewToolExecutorCondition_def Let_def
        split: sum.splits prod.splits if_splits option.splits
        dest!: ResponsePre_budget ResponsePost_budget)
next
  case NodeToolExecutor
  then show ?thesis using assms
    by (cases p) (auto simp: budget_inv_def NewToolExecutorPreHandler_def incrementToolCallAndCheck_def
        Let_def word_sless_alt sint_succ split: sum.splits prod.splits if_splits)
next
  case END
  then show ?thesis using assms by simp
qed

lemma run_trace_budget_inv:
  "budget_inv config n s \<Longrightarrow> (n', p', s') \<in> set (run_trace (exec_node L config W) limit k n p s)
     \<Longrightarrow> budget_inv config n' s'"
proof (induction "exec_node L config W" limit k n p s rule: run_trace.induct)
  case (1 limit k n p s)
  show ?case
  proof (cases "n = END \<or> limit \<le> k")
    case True
    then show ?thesis using "1.prems" by (auto simp: run_trace.simps [of _ limit k n])
  next
    case False
    show ?thesis
    proof (cases "exec_node L config W k n p s")
      case (Inl e)
      then show ?thesis using False "1.prems" by (auto simp: run_trace.simps [of _ limit k n])
    next
      case (Inr t)
      obtain n1 p1 s1 where t: "t = (n1, p1, s1)" by (cases t)
      have inv1: "budget_inv config n1 s1"
        using exec_node_budget_inv Inr t "1.prems"(1) by blast
      from "1.prems"(2) False Inr t
      have "(n', p', s') = (n, p, s) \<or> (n', p', s') \<in> set (run_trace (exec_node L config W) limit (k + 1) n1 p1 s1)"
        by (auto simp: run_trace.simps [of _ limit k n])
      then show ?thesis
      proof
        assume "(n', p', s') = (n, p, s)"
        then show ?thesis using "1.prems"(1) by simp
      next
        assume "(n', p', s') \<in> set (run_trace (exec_node L config W) limit (k + 1) n1 p1 s1)"
        then show ?thesis using "1.hyps" False Inr t inv1 by auto
      qed
    qed
  qed
qed

lemma budget_inv_zero: "budget_inv config NodeInputConverter zeroState"
  using normalize_pos [of "ToolMaxCalls config"] by (simp add: budget_inv_def zeroState_def)

text \<open>
  C9. In every configuration that an invocation of the compiled graph passes through, for
  every library, configuration, behaviour of the outside world and query, the tool-call
  count does not exceed the normalised maximum; and when the tool executor is due, the
  limit flag is not set and the increment of its pre-handler neither exceeds the maximum
  nor takes the branch that reports it.
\<close>

theorem tool_call_count_bounded:
  "\<forall>(n, p, s) \<in> set (invocation_trace L config W q).
     sint (ToolCallCount s) \<le> sint (normalizeMaxToolCalls (ToolMaxCalls config))
     \<and> (n = NodeToolExecutor \<longrightarrow>
          \<not> ToolCallLimitReached s
          \<and> \<not> fst (incrementToolCallAndCheck s (ToolMaxCalls config))
          \<and> sint (ToolCallCount (snd (incrementToolCallAndCheck s (ToolMaxCalls config))))
               \<le> sint (normalizeMaxToolCalls (ToolMaxCalls config)))"
proof (clarify, intro conjI impI)
  fix n p s
  assume mem: "(n, p, s) \<in> set (invocation_trace L config W q)"
  have inv: "budget_inv config n s"
    using run_trace_budget_inv [OF budget_inv_zero] mem unfolding invocation_trace_def by blast
  show "sint (ToolCallCount s) \<le> sint (normalizeMaxToolCalls (ToolMaxCalls config))"
    using inv by (simp add: budget_inv_def)
  assume te: "n = NodeToolExecutor"
  then have lt: "sint (ToolCallCount s) < sint (normalizeMaxToolCalls (ToolMaxCalls config))"
    and nf: "\<not> ToolCallLimitReached s"
    using inv by (simp_all add: budget_inv_def)
  show "\<not> ToolCallLimitReached s" by (rule nf)
  show "\<not> fst (incrementToolCallAndCheck s (ToolMaxCalls config))"
    using lt by (simp add: incrementToolCallAndCheck_def Let_def word_sless_alt sint_succ)
  show "sint (ToolCallCount (snd (incrementToolCallAndCheck s (ToolMaxCalls config))))
               \<le> sint (normalizeMaxToolCalls (ToolMaxCalls config))"
    using lt by (simp add: incrementToolCallAndCheck_def Let_def word_sless_alt sint_succ)
qed

text \<open>
  C1 (as amended). Whenever the response step is due in an invocation, its pre-handler
  appends the inbound messages to the history. If \<open>ToolCallLimitReached\<close> is already
  true or the tool-call count has reached the normalised maximum (the configured maximum,
  or 10 when that is zero or negative), it appends after them exactly one notice, a
  system message, and marks the limit reached; running the pre-handler again on the
  state it produced, with whatever inbound messages, appends no second notice and leaves
  the limit marked. Otherwise it appends no notice and does not mark the limit. (The flag
  is in fact never set when the response step is due: the branch after the response model
  ends the invocation once it is set.)
\<close>

theorem response_pre_handler_notice:
  "(NodeResponseChatModel, PMessages in0, s) \<in> set (invocation_trace L config W q) \<Longrightarrow>
   NewResponseChatModelPreHandler L (ToolMaxCalls config) in0 s = (hist, s') \<Longrightarrow>
   hist = History s' \<and> ToolCallCount s' = ToolCallCount s
   \<and> (ToolCallLimitReached s
        \<or> sint (normalizeMaxToolCalls (ToolMaxCalls config)) \<le> sint (ToolCallCount s) \<longrightarrow>
        History s' = History s @ backfillToolCallID L in0 s
                       @ [Some (wrapUpNotice (normalizeMaxToolCalls (ToolMaxCalls config)))]
        \<and> Role (wrapUpNotice (normalizeMaxToolCalls (ToolMaxCalls config))) = System
        \<and> ToolCallLimitReached s'
        \<and> History (snd (NewResponseChatModelPreHandler L (ToolMaxCalls config) in1 s'))
             = History s' @ backfillToolCallID L in1 s'
        \<and> ToolCallLimitReached (snd (NewResponseChatModelPreHandler L (ToolMaxCalls config) in1 s')))
   \<and> (\<not> (ToolCallLimitReached s
            \<or> sint (normalizeMaxToolCalls (ToolMaxCalls config)) \<le> sint (ToolCallCount s)) \<longrightarrow>
        History s' = History s @ backfillToolCallID L in0 s \<and> \<not> ToolCallLimitReached s')
   \<and> \<not> ToolCallLimitReached s"
proof -
  assume mem: "(NodeResponseChatModel, PMessages in0, s) \<in> set (invocation_trace L config W q)"
    and pre: "NewResponseChatModelPreHandler L (ToolMaxCalls config) in0 s = (hist, s')"
  have "budget_inv config NodeResponseChatModel s"
    using run_trace_budget_inv [OF budget_inv_zero] mem unfolding invocation_trace_def by blast
  then have nf: "\<not> ToolCallLimitReached s"
    by (simp add: budget_inv_def)
  show ?thesis
    using pre nf
    by (auto simp: NewResponseChatModelPreHandler_def checkAndMarkToolLimit_def Let_def word_sle_eq
        wrapUpNotice_def split: if_splits)
qed

lemma maxSteps_ge: "20 \<le> sint (maxSteps config)"
  by (simp add: maxSteps_def Let_def word_sless_alt)

lemma maxSteps_value:
  assumes "- (2 ^ 62) - 5 \<le> sint (ToolMaxCalls config)" and "sint (ToolMaxCalls config) < 2 ^ 62 - 5"
  shows "sint (maxSteps config) = max 20 (10 + 2 * sint (ToolMaxCalls config))"
proof -
  let ?t = "ToolMaxCalls config"
  have "10 + ?t * 2 = (word_of_int (10 + 2 * sint ?t) :: go_int)"
    by simp
  then have "sint (10 + ?t * 2) = signed_take_bit 63 (10 + 2 * sint ?t)"
    by (simp only: sint_sbintrunc') simp
  also have "\<dots> = 10 + 2 * sint ?t"
    using assms by (intro signed_take_bit_int_eq_self) auto
  finally have s: "sint (10 + ?t * 2) = 10 + 2 * sint ?t" .
  show ?thesis
    using s by (simp add: maxSteps_def Let_def word_sless_alt max_def)
qed

lemma run_graph_steps:
  "k \<le> limit \<Longrightarrow> fst (run_graph step limit k n p s) \<le> limit"
proof (induction step limit k n p s rule: run_graph.induct)
  case (1 step limit k n p s)
  show ?case
  proof (cases "n = END \<or> limit \<le> k")
    case True
    then show ?thesis using "1.prems" by (subst run_graph.simps) auto
  next
    case False
    show ?thesis
    proof (cases "step k n p s")
      case (Inl e)
      then show ?thesis using False by (subst run_graph.simps) auto
    next
      case (Inr t)
      obtain n' p' s' where t: "t = (n', p', s')" by (cases t)
      have "fst (run_graph step limit (k + 1) n' p' s') \<le> limit"
        using "1.IH" [of "(n', p', s')" n' "(p', s')" p' s'] False Inr t by auto
      then show ?thesis using False Inr t by (subst run_graph.simps) auto
    qed
  qed
qed

lemma run_trace_head: "(n, p, s) \<in> set (run_trace step limit k n p s)"
  by (subst run_trace.simps) simp

lemma run_trace_loops:
  "k \<le> limit \<Longrightarrow> length (run_trace step limit k n p s) = Suc (limit - k) \<Longrightarrow>
   \<forall>x \<in> set (run_trace step limit k n p s). fst x \<noteq> END \<Longrightarrow>
   run_graph step limit k n p s = (limit, Inl ErrExceedMaxSteps)"
proof (induction step limit k n p s rule: run_graph.induct)
  case (1 step limit k n p s)
  have nE: "n \<noteq> END"
    using "1.prems"(3) run_trace_head [of n p s step limit k] by fastforce
  show ?case
  proof (cases "limit \<le> k")
    case True
    then show ?thesis using "1.prems"(1) nE by (subst run_graph.simps) simp
  next
    case False
    show ?thesis
    proof (cases "step k n p s")
      case (Inl e)
      then have "run_trace step limit k n p s = [(n, p, s)]"
        using nE False by (subst run_trace.simps) simp
      then show ?thesis using "1.prems"(2) False by simp
    next
      case (Inr t)
      obtain n' p' s' where t: "t = (n', p', s')" by (cases t)
      have tr: "run_trace step limit k n p s = (n, p, s) # run_trace step limit (k + 1) n' p' s'"
        using nE False Inr t by (subst run_trace.simps) simp
      have len: "length (run_trace step limit (k + 1) n' p' s') = Suc (limit - (k + 1))"
        using "1.prems"(2) False unfolding tr by simp
      have all: "\<forall>x \<in> set (run_trace step limit (k + 1) n' p' s'). fst x \<noteq> END"
        using "1.prems"(3) unfolding tr by simp
      have "run_graph step limit (k + 1) n' p' s' = (limit, Inl ErrExceedMaxSteps)"
        using "1.IH" [of "(n', p', s')" n' "(p', s')" p' s'] nE False Inr t len all by simp
      then show ?thesis using nE False Inr t by (subst run_graph.simps) simp
    qed
  qed
qed

text \<open>
  C6 (as amended). Whenever \<open>10 + 2 \<times> ToolMaxCalls\<close> fits the 64-bit \<open>int\<close>, the
  step ceiling that \<open>compile\<close> configures is \<open>max(20, 10 + 2 \<times> ToolMaxCalls)\<close>; for every
  configuration it is at least 20. A run of the executor, an invocation of this graph
  included, makes at most that many step executions. And a run that keeps looping, that
  is one that makes every one of these step executions without an error and without
  reaching \<open>END\<close> (its trace has a configuration for each of them and one more, none at
  \<open>END\<close>), is aborted with the step-ceiling error after exactly that many.
\<close>

theorem step_ceiling:
  "(- (2 ^ 62) - 5 \<le> sint (ToolMaxCalls config) \<and> sint (ToolMaxCalls config) < 2 ^ 62 - 5 \<longrightarrow>
      sint (maxSteps config) = max 20 (10 + 2 * sint (ToolMaxCalls config)))
   \<and> 20 \<le> sint (maxSteps config)
   \<and> fst (Invoke L config W q) \<le> nat (sint (maxSteps config))
   \<and> fst (run_graph step (nat (sint (maxSteps config))) 0 n p s) \<le> nat (sint (maxSteps config))
   \<and> (length (invocation_trace L config W q) = Suc (nat (sint (maxSteps config)))
        \<and> (\<forall>x \<in> set (invocation_trace L config W q). fst x \<noteq> END) \<longrightarrow>
        Invoke L config W q = (nat (sint (maxSteps config)), Inl ErrExceedMaxSteps))
   \<and> (length (run_trace step (nat (sint (maxSteps config))) 0 n p s) = Suc (nat (sint (maxSteps config)))
        \<and> (\<forall>x \<in> set (run_trace step (nat (sint (maxSteps config))) 0 n p s). fst x \<noteq> END) \<longrightarrow>
        run_graph step (nat (sint (maxSteps config))) 0 n p s
          = (nat (sint (maxSteps config)), Inl ErrExceedMaxSteps))"
proof -
  let ?c = "nat (sint (maxSteps config))"
  have a: "fst (Invoke L config W q) \<le> ?c"
    unfolding Invoke_def by (rule run_graph_steps) simp
  have b: "fst (run_graph step ?c 0 n p s) \<le> ?c"
    by (rule run_graph_steps) simp
  have c: "run_graph step ?c 0 n p s = (?c, Inl ErrExceedMaxSteps)"
    if "length (run_trace step ?c 0 n p s) = Suc ?c"
      and "\<forall>x \<in> set (run_trace step ?c 0 n p s). fst x \<noteq> END"
    using run_trace_loops [of 0 ?c step n p s] that by simp
  have d: "Invoke L config W q = (?c, Inl ErrExceedMaxSteps)"
    if "length (invocation_trace L config W q) = Suc ?c"
      and "\<forall>x \<in> set (invocation_trace L config W q). fst x \<noteq> END"
    using run_trace_loops [of 0 ?c "exec_node L config W" NodeInputConverter "PQuery q" zeroState] that
    unfolding Invoke_def invocation_trace_def by simp
  show ?thesis
    using maxSteps_value [of config] maxSteps_ge [of config] a b c d by blast
qed

text \<open>
  C6 as stated fails where the product wraps around: for a budget of \<open>2^62\<close> the
  ceiling is 20.
\<close>

theorem step_ceiling_counterexample:
  "sint (maxSteps \<lparr>ToolMaxCalls = 2 ^ 62, NLUModelName = [], ResponseModelName = []\<rparr>) = 20
   \<and> max 20 (10 + 2 * sint (2 ^ 62 :: go_int)) = 9223372036854775818
   \<and> sint (maxSteps \<lparr>ToolMaxCalls = 2 ^ 62, NLUModelName = [], ResponseModelName = []\<rparr>)
       \<noteq> max 20 (10 + 2 * sint (ToolMaxCalls
             \<lparr>ToolMaxCalls = 2 ^ 62, NLUModelName = [], ResponseModelName = []\<rparr>))"
  by (simp add: maxSteps_def Let_def word_sless_alt)


lemma synthToolCallIDs_length:
  "length (fst (synthToolCallIDs L tcs seq)) = length tcs"
proof (induction tcs arbitrary: seq)
  case Nil
  show ?case by simp
next
  case (Cons tc tcs)
  show ?case
    using Cons.IH [of "seq + 1"] Cons.IH [of seq]
    by (cases "synthToolCallIDs L tcs (seq + 1)"; cases "synthToolCallIDs L tcs seq") simp
qed

lemma ResponsePost_toolcalls:
  "\<exists>m' s' saved. NewResponseChatModelPostHandler L name (Some m) s = Inr (Some m', s', saved)
     \<and> (ToolCalls m' = [] \<longleftrightarrow> ToolCalls m = [])
     \<and> ToolCallCount s' = ToolCallCount s \<and> ToolCallLimitReached s' = ToolCallLimitReached s"
proof -
  obtain m1 s1 where r: "recordUsageCost name m s = (m1, s1)" by (cases "recordUsageCost name m s")
  have tc: "ToolCalls m1 = ToolCalls m"
    using r by (auto simp: recordUsageCost_def Let_def split: option.splits if_splits prod.splits)
  obtain calls seq1 where c: "synthToolCallIDs L (ToolCalls m1) (ToolCallIDSeq s1) = (calls, seq1)"
    by (cases "synthToolCallIDs L (ToolCalls m1) (ToolCallIDSeq s1)")
  have "length calls = length (ToolCalls m1)"
    using synthToolCallIDs_length [of L "ToolCalls m1" "ToolCallIDSeq s1"] c by simp
  then have e: "calls = [] \<longleftrightarrow> ToolCalls m = []" using tc by auto
  show ?thesis
    using r c e recordUsageCost_budget [OF r]
    by (simp add: NewResponseChatModelPostHandler_def Let_def)
qed

lemma response_step_below_limit:
  assumes "\<not> ToolCallLimitReached s"
    and "sint (ToolCallCount s) < sint (normalizeMaxToolCalls (ToolMaxCalls config))"
    and "w_ResponseChatModel W k (fst (NewResponseChatModelPreHandler L (ToolMaxCalls config) in0 s))
           = Inr (Some m)"
    and "ToolCalls m \<noteq> []"
  shows "\<exists>m' s'. exec_node L config W k NodeResponseChatModel (PMessages in0) s
            = Inr (NodeToolExecutor, PMessage (Some m'), s')
          \<and> \<not> ToolCallLimitReached s' \<and> ToolCallCount s' = ToolCallCount s"
proof -
  obtain hist s1 where pre: "NewResponseChatModelPreHandler L (ToolMaxCalls config) in0 s = (hist, s1)"
    by (cases "NewResponseChatModelPreHandler L (ToolMaxCalls config) in0 s")
  have b1: "ToolCallCount s1 = ToolCallCount s" "\<not> ToolCallLimitReached s1"
    using ResponsePre_budget [OF pre] assms(1,2) by auto
  obtain m' s' saved where post:
    "NewResponseChatModelPostHandler L (ResponseModelName config) (Some m) s1 = Inr (Some m', s', saved)"
    "ToolCalls m' \<noteq> []" "ToolCallCount s' = ToolCallCount s1"
    "ToolCallLimitReached s' = ToolCallLimitReached s1"
    using ResponsePost_toolcalls [of L "ResponseModelName config" m s1] assms(4) by auto
  have "exec_node L config W k NodeResponseChatModel (PMessages in0) s
            = Inr (NodeToolExecutor, PMessage (Some m'), s')"
    using pre assms(3) post b1 by (simp add: NewToolExecutorCondition_def)
  then show ?thesis using post b1 by auto
qed

lemma tool_step_below_limit:
  assumes "sint (ToolCallCount s) < sint (normalizeMaxToolCalls (ToolMaxCalls config))"
    and "w_ToolExecutor W k in0 = Inr ms"
  shows "exec_node L config W k NodeToolExecutor (PMessage in0) s
           = Inr (NodeResponseChatModel, PMessages ms, s\<lparr>ToolCallCount := ToolCallCount s + 1\<rparr>)
         \<and> sint (ToolCallCount s + 1) = sint (ToolCallCount s) + 1"
  using assms sint_succ [OF assms(1)]
  by (simp add: NewToolExecutorPreHandler_def incrementToolCallAndCheck_def Let_def word_sless_alt)

text \<open>
  A budget that is zero or negative is normalised to 10 tool calls, but the ceiling that
  \<open>compile\<close> derives from the raw value is 20 steps. With a response model that asks for a
  tool in every answer, the run from the first response step (step 4, count 0; \<open>d = 8\<close>)
  is aborted at the ceiling after eight tool executions, before the limit is marked.
\<close>

lemma nonpositive_budget_hits_ceiling:
  assumes T: "sint (ToolMaxCalls config) \<le> 0"
    and model: "\<forall>k hist. \<exists>m. w_ResponseChatModel W k hist = Inr (Some m) \<and> ToolCalls m \<noteq> []"
    and tools: "\<forall>k m. \<exists>ms. w_ToolExecutor W k m = Inr ms"
  shows "k + 2 * d = 20 \<Longrightarrow> \<not> ToolCallLimitReached s \<Longrightarrow> sint (ToolCallCount s) + int d = 8 \<Longrightarrow>
         run_graph (exec_node L config W) 20 k NodeResponseChatModel (PMessages in0) s
           = (20, Inl ErrExceedMaxSteps)"
proof (induction d arbitrary: k s in0)
  case 0
  then show ?case by (subst run_graph.simps) simp
next
  case (Suc d)
  have nm: "sint (normalizeMaxToolCalls (ToolMaxCalls config)) = 10"
    using T by (simp add: normalizeMaxToolCalls_def DefaultMaxToolCalls_def word_sle_eq)
  have lt: "sint (ToolCallCount s) < sint (normalizeMaxToolCalls (ToolMaxCalls config))"
    using Suc.prems nm by simp
  obtain m where m: "w_ResponseChatModel W k
      (fst (NewResponseChatModelPreHandler L (ToolMaxCalls config) in0 s)) = Inr (Some m)"
      "ToolCalls m \<noteq> []"
    using model by blast
  obtain m' s' where r: "exec_node L config W k NodeResponseChatModel (PMessages in0) s
            = Inr (NodeToolExecutor, PMessage (Some m'), s')"
      "\<not> ToolCallLimitReached s'" "ToolCallCount s' = ToolCallCount s"
    using response_step_below_limit [OF Suc.prems(2) lt m] by blast
  obtain ms where ms: "w_ToolExecutor W (k + 1) (Some m') = Inr ms"
    using tools by blast
  have lt': "sint (ToolCallCount s') < sint (normalizeMaxToolCalls (ToolMaxCalls config))"
    using lt r(3) by simp
  let ?s2 = "s'\<lparr>ToolCallCount := ToolCallCount s' + 1\<rparr>"
  have t: "exec_node L config W (k + 1) NodeToolExecutor (PMessage (Some m')) s'
           = Inr (NodeResponseChatModel, PMessages ms, ?s2)"
      "sint (ToolCallCount s' + 1) = sint (ToolCallCount s') + 1"
    using tool_step_below_limit [OF lt' ms] by simp_all
  have k: "\<not> 20 \<le> k" "\<not> 20 \<le> k + 1" "(k + 1 + 1) + 2 * d = 20"
    using Suc.prems(1) by simp_all
  have c: "sint (ToolCallCount ?s2) + int d = 8"
    using Suc.prems(3) r(3) t(2) by simp
  have f: "\<not> ToolCallLimitReached ?s2" using r(2) by simp
  have e2: "run_graph (exec_node L config W) 20 (k + 1 + 1) NodeResponseChatModel (PMessages ms) ?s2
      = (20, Inl ErrExceedMaxSteps)"
    by (rule Suc.IH [OF k(3) f c])
  have e1: "run_graph (exec_node L config W) 20 (k + 1) NodeToolExecutor (PMessage (Some m')) s'
      = (20, Inl ErrExceedMaxSteps)"
    by (subst run_graph.simps, subst t(1)) (simp only: k e2 node.simps if_False sum.case prod.case)
  show ?case
    by (subst run_graph.simps, subst r(1)) (simp only: k e1 node.simps if_False sum.case prod.case)
qed

text \<open>
  The same run by its trace: from the first response step it makes all the sixteen steps
  that are left to the ceiling, and none of its configurations is at \<open>END\<close>.
\<close>

lemma nonpositive_budget_keeps_looping:
  assumes T: "sint (ToolMaxCalls config) \<le> 0"
    and model: "\<forall>k hist. \<exists>m. w_ResponseChatModel W k hist = Inr (Some m) \<and> ToolCalls m \<noteq> []"
    and tools: "\<forall>k m. \<exists>ms. w_ToolExecutor W k m = Inr ms"
  shows "k + 2 * d = 20 \<Longrightarrow> \<not> ToolCallLimitReached s \<Longrightarrow> sint (ToolCallCount s) + int d = 8 \<Longrightarrow>
         length (run_trace (exec_node L config W) 20 k NodeResponseChatModel (PMessages in0) s)
           = Suc (2 * d)
         \<and> (\<forall>x \<in> set (run_trace (exec_node L config W) 20 k NodeResponseChatModel (PMessages in0) s).
               fst x \<noteq> END)"
proof (induction d arbitrary: k s in0)
  case 0
  then show ?case by (subst run_trace.simps, subst run_trace.simps) simp
next
  case (Suc d)
  have nm: "sint (normalizeMaxToolCalls (ToolMaxCalls config)) = 10"
    using T by (simp add: normalizeMaxToolCalls_def DefaultMaxToolCalls_def word_sle_eq)
  have lt: "sint (ToolCallCount s) < sint (normalizeMaxToolCalls (ToolMaxCalls config))"
    using Suc.prems nm by simp
  obtain m where m: "w_ResponseChatModel W k
      (fst (NewResponseChatModelPreHandler L (ToolMaxCalls config) in0 s)) = Inr (Some m)"
      "ToolCalls m \<noteq> []"
    using model by blast
  obtain m' s' where r: "exec_node L config W k NodeResponseChatModel (PMessages in0) s
            = Inr (NodeToolExecutor, PMessage (Some m'), s')"
      "\<not> ToolCallLimitReached s'" "ToolCallCount s' = ToolCallCount s"
    using response_step_below_limit [OF Suc.prems(2) lt m] by blast
  obtain ms where ms: "w_ToolExecutor W (k + 1) (Some m') = Inr ms"
    using tools by blast
  have lt': "sint (ToolCallCount s') < sint (normalizeMaxToolCalls (ToolMaxCalls config))"
    using lt r(3) by simp
  let ?s2 = "s'\<lparr>ToolCallCount := ToolCallCount s' + 1\<rparr>"
  let ?f = "exec_node L config W"
  have t: "?f (k + 1) NodeToolExecutor (PMessage (Some m')) s'
           = Inr (NodeResponseChatModel, PMessages ms, ?s2)"
      "sint (ToolCallCount s' + 1) = sint (ToolCallCount s') + 1"
    using tool_step_below_limit [OF lt' ms] by simp_all
  have k: "\<not> 20 \<le> k" "\<not> 20 \<le> k + 1" "(k + 1 + 1) + 2 * d = 20"
    using Suc.prems(1) by simp_all
  have c: "sint (ToolCallCount ?s2) + int d = 8"
    using Suc.prems(3) r(3) t(2) by simp
  have f: "\<not> ToolCallLimitReached ?s2" using r(2) by simp
  note e2 = Suc.IH [OF k(3) f c, of ms]
  have e1: "run_trace ?f 20 (k + 1) NodeToolExecutor (PMessage (Some m')) s'
      = (NodeToolExecutor, PMessage (Some m'), s')
        # run_trace ?f 20 (k + 1 + 1) NodeResponseChatModel (PMessages ms) ?s2"
    by (subst run_trace.simps, subst t(1)) (simp only: k node.simps if_False sum.case prod.case simp_thms)
  have e0: "run_trace ?f 20 k NodeResponseChatModel (PMessages in0) s
      = (NodeResponseChatModel, PMessages in0, s)
        # run_trace ?f 20 (k + 1) NodeToolExecutor (PMessage (Some m')) s'"
    by (subst run_trace.simps, subst r(1)) (simp only: k node.simps if_False sum.case prod.case simp_thms)
  show ?case
    unfolding e0 e1 using e2 by simp
qed

subsection \<open>Cost accumulation\<close>

lemma f_of_int_finite: "\<exists>y. f_of_int n = Fin y"
proof -
  have "- (2 ^ 63) \<le> sint n" and "sint n < 2 ^ 63"
    using sint_ge [of n] sint_lt [of n] by simp_all
  then have "real_of_int (- (2 ^ 63)) \<le> real_of_int (sint n)"
    and "real_of_int (sint n) < real_of_int (2 ^ 63)"
    by (simp_all only: of_int_le_iff of_int_less_iff)
  then have "\<bar>real_of_int (sint n)\<bar> \<le> 2 ^ 63"
    by (simp add: abs_le_iff)
  moreover have "(2 :: real) ^ 63 < 2 ^ 1024 - 2 ^ 970" by simp
  ultimately have "\<bar>real_of_int (sint n)\<bar> < 2 ^ 1024 - 2 ^ 970" by linarith
  then show ?thesis unfolding f_of_int_def by (rule round64_finite)
qed

lemma zero_rate_cost: "f_div (f_mul (Fin 0) (f_of_int n)) (Fin 1000000) = Fin 0"
  using f_of_int_finite [of n] by auto

lemma ComputeCost_None [simp]: "ComputeCost None p = (Fin 0, Fin 0, Fin 0)"
  by (simp add: ComputeCost_def)

lemma recordUsageCost_total:
  "recordUsageCost name m s = (m', s') \<Longrightarrow>
   TotalCostUSD s' =
     (case usageOf m of
        None \<Rightarrow> TotalCostUSD s
      | Some u \<Rightarrow> f_add (TotalCostUSD s) (snd (snd (ComputeCost (Some u) (ResolvePricing name)))))"
  by (auto simp: recordUsageCost_def usageOf_def CostEnabled_def Let_def
      split: option.splits prod.splits)

lemma NLUPost_total:
  "TotalCostUSD (snd (NewNLUChatModelPostHandler name (Some m) s)) =
     foldl f_add (TotalCostUSD s) (callTotals [NLUCall name m])"
  by (auto simp: NewNLUChatModelPostHandler_def split: prod.splits option.splits
      dest: recordUsageCost_total)

lemma ResponsePost_total:
  "\<exists>out s1 saved. NewResponseChatModelPostHandler L name (Some m) s = Inr (out, s1, saved)
     \<and> TotalCostUSD s1 = foldl f_add (TotalCostUSD s) (callTotals [ResponseCall name m])"
  by (auto simp: NewResponseChatModelPostHandler_def Let_def split: prod.splits option.splits
      dest: recordUsageCost_total)

lemma callTotals_Cons: "callTotals (c # cs) = callTotals [c] @ callTotals cs"
  by (simp split: option.splits)

lemma afterModelCalls_total:
  "TotalCostUSD (afterModelCalls L cs s) = foldl f_add (TotalCostUSD s) (callTotals cs)"
proof (induction cs arbitrary: s)
  case Nil
  show ?case by simp
next
  case (Cons c cs)
  show ?case
  proof (cases c)
    case (NLUCall name m)
    have "TotalCostUSD (afterModelCalls L (c # cs) s)
        = foldl f_add (foldl f_add (TotalCostUSD s) (callTotals [c])) (callTotals cs)"
      using Cons.IH NLUPost_total [of name m s] NLUCall by simp
    then show ?thesis by (subst callTotals_Cons) simp
  next
    case (ResponseCall name m)
    obtain out s1 saved where
      "NewResponseChatModelPostHandler L name (Some m) s = Inr (out, s1, saved)"
      "TotalCostUSD s1 = foldl f_add (TotalCostUSD s) (callTotals [ResponseCall name m])"
      using ResponsePost_total by blast
    then have "TotalCostUSD (afterModelCalls L (c # cs) s)
        = foldl f_add (foldl f_add (TotalCostUSD s) (callTotals [c])) (callTotals cs)"
      using Cons.IH ResponseCall by simp
    then show ?thesis by (subst callTotals_Cons) simp
  qed
qed

lemma callTotals_binary64: "t \<in> set (callTotals cs) \<Longrightarrow> binary64 t"
proof (induction cs)
  case Nil
  then show ?case by simp
next
  case (Cons c cs)
  then show ?case
    by (cases "usageOf (callOutput c)") (auto simp: ComputeCost_def Let_def)
qed

lemma foldl_f_add_from_zero:
  "\<forall>t \<in> set ts. binary64 t \<Longrightarrow>
   foldl f_add (Fin 0) ts = (case ts of [] \<Rightarrow> Fin 0 | t # ts' \<Rightarrow> foldl f_add t ts')"
  by (cases ts) (simp_all add: f_add_zero_left)

text \<open>
  C7. For every usage and pricing pair \<open>ComputeCost\<close> returns the input cost
  \<open>inputRate \<times> promptTokens / 1e6\<close>, the output cost \<open>outputRate \<times> completionTokens / 1e6\<close>
  and their sum, each operation being the \<open>float64\<close> one, and zero for a nil usage; a
  model name that is not in the pricing table resolves to the zero-rate pair and so to
  zero cost, without an error (a name in the table resolves to its pair); and after the
  post-handlers of any sequence of model calls
  the running total of the state is the total before them with the totals computed for
  the calls on their own added to it one after the other, in the order of the calls; from
  a total of zero, as the input converter leaves it at the start of an invocation, it is
  the \<open>float64\<close> sum of these totals in that order.
\<close>

theorem cost_computation:
  "ComputeCost (Some u) p =
     (f_div (f_mul (InputPerM p) (f_of_int (PromptTokens u))) (Fin 1000000),
      f_div (f_mul (OutputPerM p) (f_of_int (CompletionTokens u))) (Fin 1000000),
      f_add (f_div (f_mul (InputPerM p) (f_of_int (PromptTokens u))) (Fin 1000000))
            (f_div (f_mul (OutputPerM p) (f_of_int (CompletionTokens u))) (Fin 1000000)))
   \<and> ComputeCost None p = (Fin 0, Fin 0, Fin 0)
   \<and> (defaultPricing model = None \<longrightarrow>
        ResolvePricing model = \<lparr>InputPerM = Fin 0, OutputPerM = Fin 0\<rparr>
        \<and> ComputeCost usage (ResolvePricing model) = (Fin 0, Fin 0, Fin 0))
   \<and> (defaultPricing model = Some q \<longrightarrow> ResolvePricing model = q)
   \<and> TotalCostUSD (afterModelCalls L cs s) = foldl f_add (TotalCostUSD s) (callTotals cs)
   \<and> (TotalCostUSD s = Fin 0 \<longrightarrow>
        TotalCostUSD (afterModelCalls L cs s)
          = (case callTotals cs of [] \<Rightarrow> Fin 0 | t # ts \<Rightarrow> foldl f_add t ts))"
proof -
  have k: "defaultPricing model = Some q \<longrightarrow> ResolvePricing model = q"
    by (simp add: ResolvePricing_def)
  have a: "ComputeCost (Some u) p =
     (f_div (f_mul (InputPerM p) (f_of_int (PromptTokens u))) (Fin 1000000),
      f_div (f_mul (OutputPerM p) (f_of_int (CompletionTokens u))) (Fin 1000000),
      f_add (f_div (f_mul (InputPerM p) (f_of_int (PromptTokens u))) (Fin 1000000))
            (f_div (f_mul (OutputPerM p) (f_of_int (CompletionTokens u))) (Fin 1000000)))"
    by (simp add: ComputeCost_def Let_def)
  have n: "ComputeCost None p = (Fin 0, Fin 0, Fin 0)"
    by simp
  have z: "defaultPricing model = None \<longrightarrow>
        ResolvePricing model = \<lparr>InputPerM = Fin 0, OutputPerM = Fin 0\<rparr>
        \<and> ComputeCost usage (ResolvePricing model) = (Fin 0, Fin 0, Fin 0)"
    by (cases usage) (simp_all add: ResolvePricing_def ComputeCost_def Let_def zero_rate_cost)
  have t: "TotalCostUSD (afterModelCalls L cs s) = foldl f_add (TotalCostUSD s) (callTotals cs)"
    by (rule afterModelCalls_total)
  have f: "TotalCostUSD s = Fin 0 \<longrightarrow>
        TotalCostUSD (afterModelCalls L cs s)
          = (case callTotals cs of [] \<Rightarrow> Fin 0 | t # ts \<Rightarrow> foldl f_add t ts)"
    using foldl_f_add_from_zero [of "callTotals cs"] callTotals_binary64 [of _ cs]
    by (simp add: t)
  show ?thesis
    by (intro conjI a n z k t f)
qed

text \<open>
  A call of 100 prompt and 50 completion tokens at the rates 0.10 and 0.40 costs the
  binary64 values next to 0.00001 and 0.00002 and, as their \<open>float64\<close> sum,
  \<open>3.0000000000000004e-05\<close>; with a second call of 200 and 100 tokens at the rates 0.30
  and 2.50 the running total is the binary64 value next to 0.00034.
\<close>

theorem cost_computation_witness:
  "ComputeCost (Some \<lparr>PromptTokens = 100, CompletionTokens = 50, TotalTokens = 150\<rparr>)
      (ResolvePricing ''gemini-2.5-flash-lite'')
     = (Fin (5902958103587057 / 2 ^ 69), Fin (5902958103587057 / 2 ^ 68),
        Fin (4427218577690293 / 2 ^ 67))
   \<and> ComputeCost (Some \<lparr>PromptTokens = 100, CompletionTokens = 50, TotalTokens = 150\<rparr>)
        (ResolvePricing ''some-other-model'') = (Fin 0, Fin 0, Fin 0)
   \<and> ResolvePricing ''gemini-2.5-flash''
       = \<lparr>InputPerM = Fin (5404319552844595 / 2 ^ 54), OutputPerM = Fin (5 / 2)\<rparr>
   \<and> TotalCostUSD (afterModelCalls refLib
        [NLUCall ''gemini-2.5-flash-lite''
           (SystemMessage ''a''\<lparr>ResponseMeta := Some \<lparr>Usage = Some
              \<lparr>PromptTokens = 100, CompletionTokens = 50, TotalTokens = 150\<rparr>\<rparr>\<rparr>),
         ResponseCall ''gemini-2.5-flash''
           (SystemMessage ''b''\<lparr>ResponseMeta := Some \<lparr>Usage = Some
              \<lparr>PromptTokens = 200, CompletionTokens = 100, TotalTokens = 300\<rparr>\<rparr>\<rparr>)]
        zeroState) = Fin (48999163945791 / 2 ^ 57)
   \<and> TotalCostUSD (afterModelCalls refLib
        [NLUCall ''gemini-2.5-flash-lite''
           (SystemMessage ''a''\<lparr>ResponseMeta := Some \<lparr>Usage = Some
              \<lparr>PromptTokens = 100, CompletionTokens = 50, TotalTokens = 150\<rparr>\<rparr>\<rparr>),
         ResponseCall ''gemini-2.5-flash''
           (SystemMessage ''b''\<lparr>ResponseMeta := Some \<lparr>Usage = Some
              \<lparr>PromptTokens = 200, CompletionTokens = 100, TotalTokens = 300\<rparr>\<rparr>\<rparr>)]
        zeroState)
       = f_add (Fin (4427218577690293 / 2 ^ 67)) (Fin (5718490662849961 / 2 ^ 64))"
proof -
  let ?u1 = "\<lparr>PromptTokens = 100, CompletionTokens = 50, TotalTokens = 150\<rparr>"
  let ?u2 = "\<lparr>PromptTokens = 200, CompletionTokens = 100, TotalTokens = 300\<rparr>"
  let ?cs = "[NLUCall ''gemini-2.5-flash-lite'' (SystemMessage ''a''\<lparr>ResponseMeta := Some \<lparr>Usage = Some ?u1\<rparr>\<rparr>),
         ResponseCall ''gemini-2.5-flash'' (SystemMessage ''b''\<lparr>ResponseMeta := Some \<lparr>Usage = Some ?u2\<rparr>\<rparr>)]"
  have none: "defaultPricing ''some-other-model'' = None"
    by (simp add: defaultPricing_def)
  have lite: "ResolvePricing ''gemini-2.5-flash-lite''
      = \<lparr>InputPerM = Fin (3602879701896397 / 2 ^ 55), OutputPerM = Fin (3602879701896397 / 2 ^ 53)\<rparr>"
    by (simp add: ResolvePricing_def defaultPricing_def round64_eval)
  have flash: "ResolvePricing ''gemini-2.5-flash''
      = \<lparr>InputPerM = Fin (5404319552844595 / 2 ^ 54), OutputPerM = Fin (5 / 2)\<rparr>"
    by (simp add: ResolvePricing_def defaultPricing_def round64_eval)
  have n: "f_of_int 100 = Fin 100" "f_of_int 50 = Fin 50" "f_of_int 200 = Fin 200"
    by (simp_all add: f_of_int_def round64_eval)
  have i1: "f_div (f_mul (Fin (3602879701896397 / 2 ^ 55)) (Fin 100)) (Fin 1000000)
      = Fin (5902958103587057 / 2 ^ 69)"
    by (simp add: round64_eval)
  have o1: "f_div (f_mul (Fin (3602879701896397 / 2 ^ 53)) (Fin 50)) (Fin 1000000)
      = Fin (5902958103587057 / 2 ^ 68)"
    by (simp add: round64_eval)
  have t1: "f_add (Fin (5902958103587057 / 2 ^ 69)) (Fin (5902958103587057 / 2 ^ 68))
      = Fin (4427218577690293 / 2 ^ 67)"
    by (simp add: round64_eval)
  have i2: "f_div (f_mul (Fin (5404319552844595 / 2 ^ 54)) (Fin 200)) (Fin 1000000)
      = Fin (8854437155380585 / 2 ^ 67)"
    by (simp add: round64_eval)
  have o2: "f_div (f_mul (Fin (5 / 2)) (Fin 100)) (Fin 1000000)
      = Fin (1152921504606847 / 2 ^ 62)"
    by (simp add: round64_eval)
  have t2: "f_add (Fin (8854437155380585 / 2 ^ 67)) (Fin (1152921504606847 / 2 ^ 62))
      = Fin (5718490662849961 / 2 ^ 64)"
    by (simp add: round64_eval)
  have s1: "f_add (Fin 0) (Fin (4427218577690293 / 2 ^ 67)) = Fin (4427218577690293 / 2 ^ 67)"
    by (simp add: round64_eval)
  have s2: "f_add (Fin (4427218577690293 / 2 ^ 67)) (Fin (5718490662849961 / 2 ^ 64))
      = Fin (48999163945791 / 2 ^ 57)"
    by (simp add: round64_eval)
  note T1 = cost_computation [of ?u1 "ResolvePricing ''gemini-2.5-flash-lite''"
        "''some-other-model''" "Some ?u1" _ refLib ?cs zeroState]
  note T2 = cost_computation [of ?u2 "ResolvePricing ''gemini-2.5-flash''"
        "''gemini-2.5-flash''" "Some ?u2"
        "\<lparr>InputPerM = round64 0.30, OutputPerM = round64 2.50\<rparr>" refLib ?cs zeroState]
  have known: "defaultPricing ''gemini-2.5-flash''
      = Some \<lparr>InputPerM = round64 0.30, OutputPerM = round64 2.50\<rparr>"
    by (simp add: defaultPricing_def)
  have c3: "ResolvePricing ''gemini-2.5-flash''
      = \<lparr>InputPerM = Fin (5404319552844595 / 2 ^ 54), OutputPerM = Fin (5 / 2)\<rparr>"
    using T2 [THEN conjunct2, THEN conjunct2, THEN conjunct2, THEN conjunct1] known flash by simp
  have c1: "ComputeCost (Some ?u1) (ResolvePricing ''gemini-2.5-flash-lite'')
     = (Fin (5902958103587057 / 2 ^ 69), Fin (5902958103587057 / 2 ^ 68),
        Fin (4427218577690293 / 2 ^ 67))"
    using T1 [THEN conjunct1] by (simp only: lite Pricing.simps TokenUsage.simps n i1 o1 t1)
  have c2: "ComputeCost (Some ?u2) (ResolvePricing ''gemini-2.5-flash'')
     = (Fin (8854437155380585 / 2 ^ 67), Fin (1152921504606847 / 2 ^ 62),
        Fin (5718490662849961 / 2 ^ 64))"
    using T2 [THEN conjunct1] by (simp only: flash Pricing.simps TokenUsage.simps n i2 o2 t2)
  have c0: "ComputeCost (Some ?u1) (ResolvePricing ''some-other-model'') = (Fin 0, Fin 0, Fin 0)"
    using T1 [THEN conjunct2, THEN conjunct2, THEN conjunct1] none by blast
  have tot: "callTotals ?cs = [Fin (4427218577690293 / 2 ^ 67), Fin (5718490662849961 / 2 ^ 64)]"
    by (simp add: usageOf_def SystemMessage_def c1 c2)
  have z: "TotalCostUSD zeroState = Fin 0"
    by (simp add: zeroState_def)
  have "TotalCostUSD (afterModelCalls refLib ?cs zeroState)
      = foldl f_add (TotalCostUSD zeroState) (callTotals ?cs)"
    using T1 [THEN conjunct2, THEN conjunct2, THEN conjunct2, THEN conjunct2, THEN conjunct1] .
  also have "\<dots> = f_add (f_add (Fin 0) (Fin (4427218577690293 / 2 ^ 67))) (Fin (5718490662849961 / 2 ^ 64))"
    by (simp only: tot z foldl.simps)
  also have "\<dots> = Fin (48999163945791 / 2 ^ 57)"
    by (simp only: s1 s2)
  finally have c4: "TotalCostUSD (afterModelCalls refLib ?cs zeroState) = Fin (48999163945791 / 2 ^ 57)" .
  have "TotalCostUSD (afterModelCalls refLib ?cs zeroState)
      = (case callTotals ?cs of [] \<Rightarrow> Fin 0 | t # ts \<Rightarrow> foldl f_add t ts)"
    using T1 [THEN conjunct2, THEN conjunct2, THEN conjunct2, THEN conjunct2, THEN conjunct2] z
    by blast
  then have c5: "TotalCostUSD (afterModelCalls refLib ?cs zeroState)
      = f_add (Fin (4427218577690293 / 2 ^ 67)) (Fin (5718490662849961 / 2 ^ 64))"
    by (simp only: tot list.case foldl.simps)
  show ?thesis using c1 c0 c3 c4 c5 by blast
qed

subsection \<open>The parser\<close>

lemma parseFloatInRange_unit:
  "parseFloatInRange L s name (Fin 0) (Fin 1) = Inr v \<Longrightarrow>
     inUnit v \<and> ParseFloat L (TrimSpace L s) = Inr v"
  by (cases v) (auto simp: parseFloatInRange_def parseFloat_def inUnit_def f_gt_def
      split: sum.splits if_splits)

lemma parseFloatInRange_Inr_iff:
  "(\<exists>v. parseFloatInRange L s name (Fin 0) (Fin 1) = Inr v) \<longleftrightarrow>
     (\<exists>c. ParseFloat L (TrimSpace L s) = Inr (Fin c) \<and> 0 \<le> c \<and> c \<le> 1)"
proof
  assume "\<exists>v. parseFloatInRange L s name (Fin 0) (Fin 1) = Inr v"
  then obtain v where v: "parseFloatInRange L s name (Fin 0) (Fin 1) = Inr v" by blast
  from parseFloatInRange_unit [OF v] show "\<exists>c. ParseFloat L (TrimSpace L s) = Inr (Fin c) \<and> 0 \<le> c \<and> c \<le> 1"
    by (cases v) (auto simp: inUnit_def)
next
  assume "\<exists>c. ParseFloat L (TrimSpace L s) = Inr (Fin c) \<and> 0 \<le> c \<and> c \<le> 1"
  then show "\<exists>v. parseFloatInRange L s name (Fin 0) (Fin 1) = Inr v"
    by (auto simp: parseFloatInRange_def parseFloat_def f_gt_def)
qed

lemma addErr_fields [simp]:
  "Intents (addErr msg resp) = Intents resp"
  "Languages (addErr msg resp) = Languages resp"
  "PrimaryIntent (addErr msg resp) = PrimaryIntent resp"
  by (simp_all add: addErr_def)

lemma metaField_fields:
  "metaField L parts i f msg resp = (m, resp1) \<Longrightarrow>
     Intents resp1 = Intents resp \<and> Languages resp1 = Languages resp
     \<and> PrimaryIntent resp1 = PrimaryIntent resp"
  by (auto simp: metaField_def split: if_splits sum.splits)

lemma processIntent_fields:
  "PrimaryIntent (processIntent L rt resp) = PrimaryIntent resp
   \<and> Languages (processIntent L rt resp) = Languages resp
   \<and> (Intents (processIntent L rt resp) = Intents resp
        \<or> (\<exists>it. Intents (processIntent L rt resp) = Intents resp @ [it] \<and> inUnit (it_Confidence it)
               \<and> inUnit (it_Priority it)))"
  by (auto simp: processIntent_def Let_def split: sum.splits prod.splits
      dest!: metaField_fields parseFloatInRange_unit)

lemma processEntity_fields:
  "PrimaryIntent (processEntity L rt resp) = PrimaryIntent resp
   \<and> Languages (processEntity L rt resp) = Languages resp
   \<and> Intents (processEntity L rt resp) = Intents resp"
  by (auto simp: processEntity_def Let_def split: sum.splits prod.splits dest!: metaField_fields)

lemma processSentiment_fields:
  "PrimaryIntent (processSentiment L rt resp) = PrimaryIntent resp
   \<and> Languages (processSentiment L rt resp) = Languages resp
   \<and> Intents (processSentiment L rt resp) = Intents resp"
  by (auto simp: processSentiment_def Let_def split: sum.splits prod.splits dest!: metaField_fields)

lemma processLanguage_fields:
  "PrimaryIntent (processLanguage L rt resp) = PrimaryIntent resp
   \<and> Intents (processLanguage L rt resp) = Intents resp"
  by (auto simp: processLanguage_def Let_def split: sum.splits prod.splits dest!: metaField_fields)

lemma intents_ok_ParsingMetadata [simp]:
  "intents_ok (resp\<lparr>ParsingMetadata := x\<rparr>) = intents_ok resp"
  by (simp add: intents_ok_def)

lemma processIntent_intents_ok: "intents_ok resp \<Longrightarrow> intents_ok (processIntent L rt resp)"
  using processIntent_fields [of L rt resp] by (auto simp: intents_ok_def)

lemma processEntity_intents_ok: "intents_ok resp \<Longrightarrow> intents_ok (processEntity L rt resp)"
  using processEntity_fields [of L rt resp] by (auto simp: intents_ok_def)

lemma processLanguage_intents_ok: "intents_ok resp \<Longrightarrow> intents_ok (processLanguage L rt resp)"
  using processLanguage_fields [of L rt resp] by (auto simp: intents_ok_def)

lemma processSentiment_intents_ok: "intents_ok resp \<Longrightarrow> intents_ok (processSentiment L rt resp)"
  using processSentiment_fields [of L rt resp] by (auto simp: intents_ok_def)

lemma processRecord_intents_ok: "intents_ok resp \<Longrightarrow> intents_ok (processRecord L rec resp)"
  by (simp add: processRecord_def addErr_def processIntent_intents_ok processEntity_intents_ok
      processLanguage_intents_ok processSentiment_intents_ok split: sum.splits)

lemma processRecords_intents_ok:
  "intents_ok resp \<Longrightarrow> intents_ok (processRecords L recs processed resp)"
  by (induction recs arbitrary: processed resp) (simp_all add: Let_def processRecord_intents_ok)

lemma primaryIntentLoop_spec:
  "list_all (\<lambda>it. inUnit (it_Confidence it)) its \<Longrightarrow>
   ((\<forall>it \<in> set its. \<not> f_lt (Fin b) (it_Confidence it)) \<longrightarrow>
           primaryIntentLoop its (Fin b) p = (Fin b, p))
   \<and> ((\<exists>it \<in> set its. f_lt (Fin b) (it_Confidence it)) \<longrightarrow>
           (\<exists>pre it post. its = pre @ it # post
              \<and> (\<forall>j \<in> set pre. f_lt (it_Confidence j) (it_Confidence it))
              \<and> (\<forall>j \<in> set post. \<not> f_lt (it_Confidence it) (it_Confidence j))
              \<and> f_lt (Fin b) (it_Confidence it)
              \<and> primaryIntentLoop its (Fin b) p = (it_Confidence it, it_Name it)))"
proof (induction its arbitrary: b p)
  case Nil
  show ?case by simp
next
  case (Cons x xs)
  obtain c where c: "it_Confidence x = Fin c" and xs: "list_all (\<lambda>it. inUnit (it_Confidence it)) xs"
    using Cons.prems by (cases "it_Confidence x") (auto simp: inUnit_def)
  have fin: "\<forall>j \<in> set xs. \<exists>d. it_Confidence j = Fin d"
  proof
    fix j assume "j \<in> set xs"
    then have "inUnit (it_Confidence j)" using xs by (simp add: list_all_iff)
    then show "\<exists>d. it_Confidence j = Fin d" by (cases "it_Confidence j") (auto simp: inUnit_def)
  qed
  note IH1 = Cons.IH [OF xs, THEN conjunct1, rule_format]
  note IH2 = Cons.IH [OF xs, THEN conjunct2, rule_format]
  have g1: "primaryIntentLoop (x # xs) (Fin b) p = (Fin b, p)"
    if "\<forall>it \<in> set (x # xs). \<not> f_lt (Fin b) (it_Confidence it)"
    using IH1 [of b p] c that by (auto simp: f_gt_def)
  have g2: "\<exists>pre it post. x # xs = pre @ it # post
              \<and> (\<forall>j \<in> set pre. f_lt (it_Confidence j) (it_Confidence it))
              \<and> (\<forall>j \<in> set post. \<not> f_lt (it_Confidence it) (it_Confidence j))
              \<and> f_lt (Fin b) (it_Confidence it)
              \<and> primaryIntentLoop (x # xs) (Fin b) p = (it_Confidence it, it_Name it)"
    if h: "\<exists>it \<in> set (x # xs). f_lt (Fin b) (it_Confidence it)"
  proof (cases "b < c")
    case True
    then have step: "primaryIntentLoop (x # xs) (Fin b) p = primaryIntentLoop xs (Fin c) (it_Name x)"
      using c by (simp add: f_gt_def)
    show ?thesis
    proof (cases "\<exists>it \<in> set xs. f_lt (Fin c) (it_Confidence it)")
      case False
      then have "primaryIntentLoop xs (Fin c) (it_Name x) = (Fin c, it_Name x)"
        using IH1 [of c "it_Name x"] by blast
      then have "x # xs = [] @ x # xs \<and> (\<forall>j \<in> set []. f_lt (it_Confidence j) (it_Confidence x))
            \<and> (\<forall>j \<in> set xs. \<not> f_lt (it_Confidence x) (it_Confidence j))
            \<and> f_lt (Fin b) (it_Confidence x)
            \<and> primaryIntentLoop (x # xs) (Fin b) p = (it_Confidence x, it_Name x)"
        using False True c step by simp
      then show ?thesis by blast
    next
      case ex: True
      then obtain pre it post where d: "xs = pre @ it # post"
          "\<forall>j \<in> set pre. f_lt (it_Confidence j) (it_Confidence it)"
          "\<forall>j \<in> set post. \<not> f_lt (it_Confidence it) (it_Confidence j)"
          "f_lt (Fin c) (it_Confidence it)"
          "primaryIntentLoop xs (Fin c) (it_Name x) = (it_Confidence it, it_Name it)"
        using IH2 [of c "it_Name x"] by blast
      obtain e where e: "it_Confidence it = Fin e" using fin d(1) by auto
      have "x # xs = (x # pre) @ it # post
            \<and> (\<forall>j \<in> set (x # pre). f_lt (it_Confidence j) (it_Confidence it))
            \<and> (\<forall>j \<in> set post. \<not> f_lt (it_Confidence it) (it_Confidence j))
            \<and> f_lt (Fin b) (it_Confidence it)
            \<and> primaryIntentLoop (x # xs) (Fin b) p = (it_Confidence it, it_Name it)"
        using d c e True step by auto
      then show ?thesis by blast
    qed
  next
    case False
    then have step: "primaryIntentLoop (x # xs) (Fin b) p = primaryIntentLoop xs (Fin b) p"
      using c by (simp add: f_gt_def)
    from h False c have ex: "\<exists>it \<in> set xs. f_lt (Fin b) (it_Confidence it)"
      by auto
    then obtain pre it post where d: "xs = pre @ it # post"
          "\<forall>j \<in> set pre. f_lt (it_Confidence j) (it_Confidence it)"
          "\<forall>j \<in> set post. \<not> f_lt (it_Confidence it) (it_Confidence j)"
          "f_lt (Fin b) (it_Confidence it)"
          "primaryIntentLoop xs (Fin b) p = (it_Confidence it, it_Name it)"
      using IH2 [of b p] by blast
    obtain e where e: "it_Confidence it = Fin e" using fin d(1) by auto
    have "x # xs = (x # pre) @ it # post
            \<and> (\<forall>j \<in> set (x # pre). f_lt (it_Confidence j) (it_Confidence it))
            \<and> (\<forall>j \<in> set post. \<not> f_lt (it_Confidence it) (it_Confidence j))
            \<and> f_lt (Fin b) (it_Confidence it)
            \<and> primaryIntentLoop (x # xs) (Fin b) p = (it_Confidence it, it_Name it)"
      using d c e False step by auto
    then show ?thesis by blast
  qed
  show ?case using g1 g2 by blast
qed

lemma find_first:
  "\<forall>j \<in> set pre. \<not> P j \<Longrightarrow> P x \<Longrightarrow> find P (pre @ x # post) = Some x"
  by (induction pre) simp_all

lemma derivedFields_Intents [simp]: "Intents (derivedFields resp) = Intents resp"
  by (simp add: derivedFields_def Let_def split: prod.splits)

lemma derivedFields_PrimaryIntent:
  "PrimaryIntent (derivedFields resp) =
     snd (primaryIntentLoop (Intents resp) (Fin (- 1)) (PrimaryIntent resp))"
  by (simp add: derivedFields_def Let_def split: prod.splits)

lemma ParseNLUResponse_intents_ok:
  "\<exists>resp. intents_ok resp \<and> ParseNLUResponse L content = Inr (derivedFields resp)"
proof -
  have e: "intents_ok emptyResponse"
    by (simp add: intents_ok_def emptyResponse_def)
  have "\<exists>recs r0. intents_ok r0
          \<and> ParseNLUResponse L content = Inr (derivedFields (processRecords L recs 0 r0))"
  proof (cases "maxContentLen < length content")
    case True
    then have "ParseNLUResponse L content = Inr (derivedFields (processRecords L
        (Split (case Index (take maxContentLen content) endDelim of
                  Some idx \<Rightarrow> take idx (take maxContentLen content)
                | None \<Rightarrow> take maxContentLen content) recDelim) 0
        (emptyResponse\<lparr>ParsingMetadata := (ParsingMetadata emptyResponse)\<lparr>truncated := True\<rparr>\<rparr>)))"
      by (simp add: ParseNLUResponse_def Let_def)
    moreover have "intents_ok (emptyResponse\<lparr>ParsingMetadata :=
        (ParsingMetadata emptyResponse)\<lparr>truncated := True\<rparr>\<rparr>)"
      using e by simp
    ultimately show ?thesis by blast
  next
    case False
    then have "ParseNLUResponse L content = Inr (derivedFields (processRecords L
        (Split (case Index content endDelim of Some idx \<Rightarrow> take idx content | None \<Rightarrow> content)
           recDelim) 0 emptyResponse))"
      by (simp add: ParseNLUResponse_def Let_def)
    then show ?thesis using e by blast
  qed
  then show ?thesis using processRecords_intents_ok by blast
qed

text \<open>
  C8. The parser accepts every input, and the \<open>PrimaryIntent\<close> it returns is the name of
  the maximum-confidence intent among the accepted ones, the first in input order among
  equals: every earlier intent has a strictly smaller confidence and no later one a
  greater. It is the empty string when no intent was accepted.
\<close>

theorem primaryIntent_first_maximum:
  "\<exists>r. ParseNLUResponse L content = Inr r
     \<and> PrimaryIntent r = primaryIntentOf (Intents r)
     \<and> (Intents r = [] \<longrightarrow> PrimaryIntent r = [])
     \<and> (Intents r \<noteq> [] \<longrightarrow>
          (\<exists>pre it post. Intents r = pre @ it # post \<and> PrimaryIntent r = it_Name it
             \<and> (\<forall>j \<in> set pre. f_lt (it_Confidence j) (it_Confidence it))
             \<and> (\<forall>j \<in> set post. \<not> f_lt (it_Confidence it) (it_Confidence j))))"
proof -
  obtain resp where ok: "intents_ok resp" and p: "ParseNLUResponse L content = Inr (derivedFields resp)"
    using ParseNLUResponse_intents_ok by blast
  let ?r = "derivedFields resp"
  let ?its = "Intents resp"
  have all: "list_all (\<lambda>it. inUnit (it_Confidence it)) ?its" and e: "PrimaryIntent resp = []"
    using ok by (simp_all add: intents_ok_def)
  have pi: "PrimaryIntent ?r = snd (primaryIntentLoop ?its (Fin (- 1)) [])"
    using e by (simp add: derivedFields_PrimaryIntent)
  show ?thesis
  proof (cases "?its = []")
    case True
    then show ?thesis using p pi
      by (simp add: primaryIntentOf_def maxConfidenceIntent_def)
  next
    case False
    then obtain x where x: "x \<in> set ?its" by (cases ?its) auto
    then have "inUnit (it_Confidence x)" using all by (simp add: list_all_iff)
    then have "f_lt (Fin (- 1)) (it_Confidence x)"
      by (cases "it_Confidence x") (auto simp: inUnit_def)
    then have "\<exists>it \<in> set ?its. f_lt (Fin (- 1)) (it_Confidence it)" using x by blast
    then obtain pre it post where d: "?its = pre @ it # post"
        "\<forall>j \<in> set pre. f_lt (it_Confidence j) (it_Confidence it)"
        "\<forall>j \<in> set post. \<not> f_lt (it_Confidence it) (it_Confidence j)"
        "primaryIntentLoop ?its (Fin (- 1)) [] = (it_Confidence it, it_Name it)"
      using primaryIntentLoop_spec [OF all, of "- 1" "[]"] by blast
    let ?P = "\<lambda>it. list_all (\<lambda>jt. \<not> f_lt (it_Confidence it) (it_Confidence jt)) ?its"
    have "\<forall>j \<in> set pre. \<not> ?P j"
      using d(1,2) by (auto simp: list_all_iff)
    moreover have "?P it"
      using d(1,2,3) by (auto simp: list_all_iff dest: f_lt_asym)
    ultimately have "find ?P ?its = Some it"
      using find_first [of pre ?P it post] d(1) by simp
    then have "primaryIntentOf ?its = it_Name it"
      by (simp add: primaryIntentOf_def maxConfidenceIntent_def)
    then show ?thesis using p pi d False by auto
  qed
qed

lemma lowercase_letter:
  "\<not> ((of_char c :: nat) < of_char CHR ''a'' \<or> (of_char CHR ''z'' :: nat) < of_char c)
     \<longleftrightarrow> c \<in> set ''abcdefghijklmnopqrstuvwxyz''"
proof
  assume "\<not> ((of_char c :: nat) < of_char CHR ''a'' \<or> (of_char CHR ''z'' :: nat) < of_char c)"
  then have "97 \<le> (of_char c :: nat)" "(of_char c :: nat) \<le> 122" by simp_all
  then have "(of_char c :: nat) \<in> (of_char :: char \<Rightarrow> nat) ` set ''abcdefghijklmnopqrstuvwxyz''"
    by (simp del: of_char_eq_iff) presburger
  then show "c \<in> set ''abcdefghijklmnopqrstuvwxyz''"
    by (simp only: inj_image_mem_iff [OF inj_of_char])
next
  assume "c \<in> set ''abcdefghijklmnopqrstuvwxyz''"
  then show "\<not> ((of_char c :: nat) < of_char CHR ''a'' \<or> (of_char CHR ''z'' :: nat) < of_char c)"
    by auto
qed

lemma isISO639_3_letters:
  "isISO639_3 code \<longleftrightarrow> length code = 3 \<and> set code \<subseteq> set ''abcdefghijklmnopqrstuvwxyz''"
  unfolding isISO639_3_def lowercase_letter list_all_iff by blast

lemma derivedFields_Languages [simp]: "Languages (derivedFields resp) = Languages resp"
  by (simp add: derivedFields_def Let_def split: prod.splits)

lemma processLanguage_appends:
  assumes rt: "parseRawTuple L rec = Inr rt" and ty: "Type rt = ''language''"
    and len: "4 \<le> length (Parts rt)"
    and iso: "isISO639_3 (ToLower L (TrimSpace L (Parts rt ! 1)))"
    and valid: "ValidString L (ToLower L (TrimSpace L (Parts rt ! 1)))"
    and conf: "parseFloatInRange L (Parts rt ! 2) ''lang.confidence'' (Fin 0) (Fin 1) = Inr v"
  shows "\<exists>la. Languages (processLanguage L rt resp) = Languages resp @ [la]
              \<and> acceptedLanguage L rec la"
proof -
  let ?code = "ToLower L (TrimSpace L (Parts rt ! 1))"
  have v: "inUnit v" "ParseFloat L (TrimSpace L (Parts rt ! 2)) = Inr v"
    using parseFloatInRange_unit [OF conf] by simp_all
  obtain m resp1 where mf: "metaField L (Parts rt) 4 sanitizeLanguageMeta
                 ''language: invalid metadata json'' resp = (m, resp1)"
    by (cases "metaField L (Parts rt) 4 sanitizeLanguageMeta
                 ''language: invalid metadata json'' resp")
  let ?la = "\<lparr>la_Code = ?code, la_Confidence = v,
          la_IsPrimary = (TrimSpace L (Parts rt ! 3) = ''1''), la_Metadata = m\<rparr>"
  have "Languages (processLanguage L rt resp) = Languages resp @ [?la]"
    using len iso valid conf mf metaField_fields [OF mf]
    by (simp add: processLanguage_def Let_def mustValidUTF8_def)
  moreover have "acceptedLanguage L rec ?la"
    using len iso v rt ty by (simp add: acceptedLanguage_def isISO639_3_letters)
  ultimately show ?thesis by blast
qed

lemma processLanguage_accepts:
  assumes rt: "parseRawTuple L rec = Inr rt" and ty: "Type rt = ''language''"
  shows "Languages (processLanguage L rt resp) = Languages resp
         \<or> (\<exists>la. Languages (processLanguage L rt resp) = Languages resp @ [la]
                \<and> acceptedLanguage L rec la)"
proof -
  let ?code = "ToLower L (TrimSpace L (Parts rt ! 1))"
  let ?pre = "4 \<le> length (Parts rt) \<and> isISO639_3 ?code \<and> ValidString L ?code"
  show ?thesis
  proof (cases ?pre)
    case False
    then have "Languages (processLanguage L rt resp) = Languages resp"
      by (auto simp: processLanguage_def Let_def mustValidUTF8_def)
    then show ?thesis by simp
  next
    case True
    show ?thesis
    proof (cases "parseFloatInRange L (Parts rt ! 2) ''lang.confidence'' (Fin 0) (Fin 1)")
      case (Inl e)
      have "Languages (processLanguage L rt resp) = Languages resp"
        using True Inl by (simp add: processLanguage_def Let_def mustValidUTF8_def)
      then show ?thesis by simp
    next
      case (Inr v)
      show ?thesis
        using processLanguage_appends [OF rt ty _ _ _ Inr, of resp] True by blast
    qed
  qed
qed

lemma processRecord_appends:
  assumes rt: "parseRawTuple L rec = Inr rt" and ty: "Type rt = ''language''"
    and len: "4 \<le> length (Parts rt)"
    and iso: "length (ToLower L (TrimSpace L (Parts rt ! 1))) = 3"
      "set (ToLower L (TrimSpace L (Parts rt ! 1))) \<subseteq> set ''abcdefghijklmnopqrstuvwxyz''"
    and valid: "ValidString L (ToLower L (TrimSpace L (Parts rt ! 1)))"
    and conf: "ParseFloat L (TrimSpace L (Parts rt ! 2)) = Inr (Fin c)" "0 \<le> c" "c \<le> 1"
  shows "\<exists>la. Languages (processRecord L rec resp) = Languages resp @ [la]
              \<and> acceptedLanguage L rec la"
proof -
  obtain v where v: "parseFloatInRange L (Parts rt ! 2) ''lang.confidence'' (Fin 0) (Fin 1) = Inr v"
    using parseFloatInRange_Inr_iff [of L "Parts rt ! 2" "''lang.confidence''"] conf by blast
  have "processRecord L rec resp = processLanguage L rt resp"
    using rt ty by (simp add: processRecord_def)
  then show ?thesis
    using processLanguage_appends [OF rt ty len _ valid v, of resp] iso
    by (simp add: isISO639_3_letters)
qed

lemma processRecord_languages:
  "Languages (processRecord L rec resp) = Languages resp
   \<or> (\<exists>la. Languages (processRecord L rec resp) = Languages resp @ [la]
          \<and> acceptedLanguage L rec la)"
proof (cases "parseRawTuple L rec")
  case (Inl e)
  then show ?thesis by (simp add: processRecord_def)
next
  case (Inr rt)
  show ?thesis
  proof (cases "Type rt = ''language''")
    case True
    then have "processRecord L rec resp = processLanguage L rt resp"
      using Inr by (simp add: processRecord_def)
    then show ?thesis using processLanguage_accepts [OF Inr True, of resp] by simp
  next
    case False
    then have "Languages (processRecord L rec resp) = Languages resp"
      using Inr processIntent_fields [of L rt resp] processEntity_fields [of L rt resp]
        processSentiment_fields [of L rt resp]
      by (simp add: processRecord_def)
    then show ?thesis by simp
  qed
qed

lemma processRecords_languages:
  "la \<in> set (Languages (processRecords L recs processed resp)) \<Longrightarrow>
   la \<in> set (Languages resp) \<or> (\<exists>rec0 \<in> set recs. acceptedLanguage L (TrimSpace L rec0) la)"
proof (induction recs arbitrary: processed resp)
  case Nil
  then show ?case by simp
next
  case (Cons rec0 recs)
  show ?case
  proof (cases "maxRecords \<le> processed")
    case True
    then show ?thesis using Cons.prems by simp
  next
    case False
    show ?thesis
    proof (cases "TrimSpace L rec0 = [] \<or> TrimSpace L rec0 = endDelim")
      case True
      then have "la \<in> set (Languages (processRecords L recs processed resp))"
        using Cons.prems False by (auto simp: Let_def)
      then show ?thesis using Cons.IH by fastforce
    next
      case skip: False
      let ?r = "processRecord L (TrimSpace L rec0) resp"
      have "la \<in> set (Languages (processRecords L recs (processed + 1) ?r))"
        using Cons.prems False skip by (auto simp: Let_def)
      then have d: "la \<in> set (Languages ?r) \<or> (\<exists>r \<in> set recs. acceptedLanguage L (TrimSpace L r) la)"
        by (rule Cons.IH)
      show ?thesis
        using d processRecord_languages [of L "TrimSpace L rec0" resp] by auto
    qed
  qed
qed

lemma ParseNLUResponse_records:
  "\<exists>resp0. Languages resp0 = []
     \<and> ParseNLUResponse L content
         = Inr (derivedFields (processRecords L (inputRecords content) 0 resp0))"
proof (cases "maxContentLen < length content")
  case True
  then have "ParseNLUResponse L content = Inr (derivedFields (processRecords L (inputRecords content) 0
        (emptyResponse\<lparr>ParsingMetadata := (ParsingMetadata emptyResponse)\<lparr>truncated := True\<rparr>\<rparr>)))"
    by (simp add: ParseNLUResponse_def inputRecords_def Let_def)
  moreover have "Languages (emptyResponse\<lparr>ParsingMetadata :=
        (ParsingMetadata emptyResponse)\<lparr>truncated := True\<rparr>\<rparr>) = []"
    by (simp add: emptyResponse_def)
  ultimately show ?thesis by blast
next
  case False
  then have "ParseNLUResponse L content
      = Inr (derivedFields (processRecords L (inputRecords content) 0 emptyResponse))"
    by (simp add: ParseNLUResponse_def inputRecords_def Let_def)
  moreover have "Languages emptyResponse = []"
    by (simp add: emptyResponse_def)
  ultimately show ?thesis by blast
qed

text \<open>
  C4 (as amended). A record adds at most one language entry, and it adds one only if it
  is a language tuple with at least four fields whose code field is, after surrounding
  white space is trimmed and its letters are lower-cased, exactly three lowercase ASCII
  letters, and whose confidence field parses to a value in [0,1]; the entry has that
  normalised code and that confidence, and its \<open>IsPrimary\<close> is true iff the flag field,
  trimmed, equals \<open>1\<close>. For every parser input, every language entry of the result is
  the entry of such a record of the input, whatever else the input holds. Conversely, a
  record that the loop hands to the tuple parser and that meets these conditions, its
  normalised code being valid text, does add its entry.
\<close>

theorem language_record_acceptance:
  "(Languages (processRecord L rec resp) = Languages resp
      \<or> (\<exists>la. Languages (processRecord L rec resp) = Languages resp @ [la]
             \<and> acceptedLanguage L rec la))
   \<and> (\<exists>r. ParseNLUResponse L content = Inr r
         \<and> (\<forall>la \<in> set (Languages r).
               \<exists>rec0 \<in> set (inputRecords content). acceptedLanguage L (TrimSpace L rec0) la))
   \<and> (parseRawTuple L rec = Inr rt \<and> Type rt = ''language'' \<and> 4 \<le> length (Parts rt)
        \<and> length (ToLower L (TrimSpace L (Parts rt ! 1))) = 3
        \<and> set (ToLower L (TrimSpace L (Parts rt ! 1))) \<subseteq> set ''abcdefghijklmnopqrstuvwxyz''
        \<and> ValidString L (ToLower L (TrimSpace L (Parts rt ! 1)))
        \<and> ParseFloat L (TrimSpace L (Parts rt ! 2)) = Inr (Fin c) \<and> 0 \<le> c \<and> c \<le> 1 \<longrightarrow>
        (\<exists>la. Languages (processRecord L rec resp) = Languages resp @ [la]
              \<and> acceptedLanguage L rec la))"
proof -
  have conv: "\<exists>la. Languages (processRecord L rec resp) = Languages resp @ [la]
              \<and> acceptedLanguage L rec la"
    if "parseRawTuple L rec = Inr rt \<and> Type rt = ''language'' \<and> 4 \<le> length (Parts rt)
        \<and> length (ToLower L (TrimSpace L (Parts rt ! 1))) = 3
        \<and> set (ToLower L (TrimSpace L (Parts rt ! 1))) \<subseteq> set ''abcdefghijklmnopqrstuvwxyz''
        \<and> ValidString L (ToLower L (TrimSpace L (Parts rt ! 1)))
        \<and> ParseFloat L (TrimSpace L (Parts rt ! 2)) = Inr (Fin c) \<and> 0 \<le> c \<and> c \<le> 1"
    using that processRecord_appends [of L rec rt c resp] by blast
  obtain resp0 where e: "Languages resp0 = []"
    and p: "ParseNLUResponse L content
         = Inr (derivedFields (processRecords L (inputRecords content) 0 resp0))"
    using ParseNLUResponse_records by blast
  have "\<exists>rec0 \<in> set (inputRecords content). acceptedLanguage L (TrimSpace L rec0) la"
    if "la \<in> set (Languages (derivedFields (processRecords L (inputRecords content) 0 resp0)))" for la
    using processRecords_languages [of la L "inputRecords content" 0 resp0] that e by simp
  then show ?thesis
    using p processRecord_languages [of L rec resp] conv by blast
qed

lemma metaField_score:
  "metaField L parts i f msg resp = (m, resp1) \<Longrightarrow> ImportanceScore resp1 = ImportanceScore resp"
  by (auto simp: metaField_def addErr_def split: if_splits sum.splits)

lemma addErr_score [simp]: "ImportanceScore (addErr msg resp) = ImportanceScore resp"
  by (simp add: addErr_def)

lemma processIntent_score: "ImportanceScore (processIntent L rt resp) = ImportanceScore resp"
  by (auto simp: processIntent_def Let_def split: sum.splits prod.splits dest!: metaField_score)

lemma processEntity_score: "ImportanceScore (processEntity L rt resp) = ImportanceScore resp"
  by (auto simp: processEntity_def Let_def split: sum.splits prod.splits dest!: metaField_score)

lemma processLanguage_score: "ImportanceScore (processLanguage L rt resp) = ImportanceScore resp"
  by (auto simp: processLanguage_def Let_def split: sum.splits prod.splits dest!: metaField_score)

lemma processSentiment_score: "ImportanceScore (processSentiment L rt resp) = ImportanceScore resp"
  by (auto simp: processSentiment_def Let_def split: sum.splits prod.splits dest!: metaField_score)

lemma processRecord_score: "ImportanceScore (processRecord L rec resp) = ImportanceScore resp"
  by (simp add: processRecord_def processIntent_score processEntity_score processLanguage_score
      processSentiment_score split: sum.splits)

lemma processRecords_score:
  "ImportanceScore (processRecords L recs processed resp) = ImportanceScore resp"
  by (induction recs arbitrary: processed resp) (simp_all add: Let_def processRecord_score)

lemma primaryIntentValues_unique:
  "distinct (map it_Name (pre @ it # post)) \<Longrightarrow>
   primaryIntentValues (pre @ it # post) (it_Name it) = (it_Confidence it, it_Priority it)"
  by (induction pre) auto

lemma derivedFields_score:
  "ImportanceScore (derivedFields resp) =
     (if Intents resp = [] then ImportanceScore resp
      else f_add (f_mul (fst (primaryIntentValues (Intents resp) (PrimaryIntent (derivedFields resp)))) (round64 0.6))
                 (f_mul (snd (primaryIntentValues (Intents resp) (PrimaryIntent (derivedFields resp)))) (round64 0.4)))"
  by (simp add: derivedFields_def Let_def split: prod.splits)

text \<open>
  The importance score is zero when no intent was accepted, and where the accepted
  intents have distinct names it is the weighted sum for the maximum-confidence intent.
\<close>

lemma importanceScore_unique_names:
  "\<exists>r. ParseNLUResponse L content = Inr r
     \<and> (Intents r = [] \<longrightarrow> ImportanceScore r = Fin 0)
     \<and> (distinct (map it_Name (Intents r)) \<longrightarrow>
          (\<forall>it. maxConfidenceIntent (Intents r) = Some it \<longrightarrow>
             ImportanceScore r =
               f_add (f_mul (it_Confidence it) (round64 0.6)) (f_mul (it_Priority it) (round64 0.4))))"
proof -
  have e: "intents_ok emptyResponse" "ImportanceScore emptyResponse = Fin 0"
    by (simp_all add: intents_ok_def emptyResponse_def)
  have "\<exists>recs r0. intents_ok r0 \<and> ImportanceScore r0 = Fin 0
          \<and> ParseNLUResponse L content = Inr (derivedFields (processRecords L recs 0 r0))"
  proof (cases "maxContentLen < length content")
    case True
    then have "ParseNLUResponse L content = Inr (derivedFields (processRecords L
        (Split (case Index (take maxContentLen content) endDelim of
                  Some idx \<Rightarrow> take idx (take maxContentLen content)
                | None \<Rightarrow> take maxContentLen content) recDelim) 0
        (emptyResponse\<lparr>ParsingMetadata := (ParsingMetadata emptyResponse)\<lparr>truncated := True\<rparr>\<rparr>)))"
      by (simp add: ParseNLUResponse_def Let_def)
    moreover have "intents_ok (emptyResponse\<lparr>ParsingMetadata :=
        (ParsingMetadata emptyResponse)\<lparr>truncated := True\<rparr>\<rparr>)"
      using e by simp
    moreover have "ImportanceScore (emptyResponse\<lparr>ParsingMetadata :=
        (ParsingMetadata emptyResponse)\<lparr>truncated := True\<rparr>\<rparr>) = Fin 0"
      using e by simp
    ultimately show ?thesis by blast
  next
    case False
    then have "ParseNLUResponse L content = Inr (derivedFields (processRecords L
        (Split (case Index content endDelim of Some idx \<Rightarrow> take idx content | None \<Rightarrow> content)
           recDelim) 0 emptyResponse))"
      by (simp add: ParseNLUResponse_def Let_def)
    then show ?thesis using e by blast
  qed
  then obtain resp where ok: "intents_ok resp" and z: "ImportanceScore resp = Fin 0"
    and p: "ParseNLUResponse L content = Inr (derivedFields resp)"
    using processRecords_intents_ok [of _ L] processRecords_score [of L] by fastforce
  let ?r = "derivedFields resp"
  let ?its = "Intents resp"
  have all: "list_all (\<lambda>it. inUnit (it_Confidence it)) ?its" and pe: "PrimaryIntent resp = []"
    using ok by (simp_all add: intents_ok_def)
  have g1: "ImportanceScore ?r = Fin 0" if "?its = []"
    using that z by (simp add: derivedFields_score)
  have g2: "ImportanceScore ?r =
               f_add (f_mul (it_Confidence it) (round64 0.6)) (f_mul (it_Priority it) (round64 0.4))"
    if d: "distinct (map it_Name ?its)" and m: "maxConfidenceIntent ?its = Some it" for it
  proof -
    have ne: "?its \<noteq> []" using m by (auto simp: maxConfidenceIntent_def)
    then obtain x where x: "x \<in> set ?its" by (cases ?its) auto
    then have "inUnit (it_Confidence x)" using all by (simp add: list_all_iff)
    then have "f_lt (Fin (- 1)) (it_Confidence x)"
      by (cases "it_Confidence x") (auto simp: inUnit_def)
    then have "\<exists>it \<in> set ?its. f_lt (Fin (- 1)) (it_Confidence it)" using x by blast
    then obtain pre jt post where dec: "?its = pre @ jt # post"
        "\<forall>j \<in> set pre. f_lt (it_Confidence j) (it_Confidence jt)"
        "\<forall>j \<in> set post. \<not> f_lt (it_Confidence jt) (it_Confidence j)"
        "primaryIntentLoop ?its (Fin (- 1)) [] = (it_Confidence jt, it_Name jt)"
      using primaryIntentLoop_spec [OF all, of "- 1" "[]"] by blast
    let ?P = "\<lambda>it. list_all (\<lambda>jt. \<not> f_lt (it_Confidence it) (it_Confidence jt)) ?its"
    have "\<forall>j \<in> set pre. \<not> ?P j"
      using dec(1,2) by (auto simp: list_all_iff)
    moreover have "?P jt"
      using dec(1,2,3) by (auto simp: list_all_iff dest: f_lt_asym)
    ultimately have "find ?P ?its = Some jt"
      using find_first [of pre ?P jt post] dec(1) by simp
    then have ij: "it = jt" using m by (simp add: maxConfidenceIntent_def)
    have pn: "PrimaryIntent ?r = it_Name jt"
      using dec(4) pe by (simp add: derivedFields_PrimaryIntent)
    have "primaryIntentValues ?its (it_Name jt) = (it_Confidence jt, it_Priority jt)"
      using primaryIntentValues_unique [of pre jt post] d dec(1) by simp
    then show ?thesis using ne pn ij by (simp add: derivedFields_score)
  qed
  show ?thesis using p g1 g2 by auto
qed

subsection \<open>Evaluation on concrete inputs\<close>

text \<open>
  The parser and the handlers are evaluated with the reference library, stage by stage:
  the split into records, the tuple of each record, the record's fields, the derived
  fields.
\<close>

lemmas lib_eval = refLib_def asciiTrimSpace_def asciiSpace_def asciiToLower_def
  decimalParseFloat_def isDigit_def

lemmas tuple_eval = parseRawTuple_def maxTupleLen_def SplitN_def tupDelim_def HasPrefix_def

lemmas field_eval = mustValidUTF8_def parseFloatInRange_def parseFloat_def metaField_def
  f_gt_def emptyResponse_def

lemma ParseNLUResponse_small:
  "\<not> maxContentLen < length content \<Longrightarrow> Index content endDelim = None \<Longrightarrow>
   ParseNLUResponse L content =
     Inr (derivedFields (processRecords L (Split content recDelim) 0 emptyResponse))"
  by (simp add: ParseNLUResponse_def Let_def)

lemma processRecords_one:
  "TrimSpace L r1 = r1 \<Longrightarrow> r1 \<noteq> [] \<Longrightarrow> r1 \<noteq> endDelim \<Longrightarrow>
   processRecords L [r1] 0 resp = processRecord L r1 resp"
  by (simp add: maxRecords_def)

lemma processRecords_two:
  "TrimSpace L r1 = r1 \<Longrightarrow> r1 \<noteq> [] \<Longrightarrow> r1 \<noteq> endDelim \<Longrightarrow>
   TrimSpace L r2 = r2 \<Longrightarrow> r2 \<noteq> [] \<Longrightarrow> r2 \<noteq> endDelim \<Longrightarrow>
   processRecords L [r1, r2] 0 resp = processRecord L r2 (processRecord L r1 resp)"
  by (simp add: maxRecords_def)

lemma intent_record:
  "ParseFloat refLib (TrimSpace refLib c) = Inr (Fin x) \<Longrightarrow> 0 \<le> x \<Longrightarrow> x \<le> 1 \<Longrightarrow>
   ParseFloat refLib (TrimSpace refLib q) = Inr (Fin y) \<Longrightarrow> 0 \<le> y \<Longrightarrow> y \<le> 1 \<Longrightarrow>
   TrimSpace refLib n = n \<Longrightarrow> n \<noteq> [] \<Longrightarrow> ValidString refLib n \<Longrightarrow>
   processIntent refLib \<lparr>Type = ''intent'', Parts = [''intent'', n, c, q]\<rparr> resp
     = resp\<lparr>Intents := Intents resp @
         [\<lparr>it_Name = n, it_Confidence = Fin x, it_Priority = Fin y, it_Metadata = Map.empty\<rparr>]\<rparr>"
  by (simp add: processIntent_def mustValidUTF8_def parseFloatInRange_def parseFloat_def
      metaField_def f_gt_def)

text \<open>
  A language record with the code field \<open>ENG\<close> and the flag field \<open>" 1 "\<close>: the code
  field is not three lowercase letters and the flag field is not literally \<open>1\<close>, yet
  the record is accepted, as \<open>eng\<close> and primary. This refutes C4 as stated.
\<close>

lemma lang_tuple:
  "parseRawTuple refLib ''(language<||>ENG<||>0.5<||> 1 )'' =
     Inr \<lparr>Type = ''language'', Parts = [''language'', ''ENG'', ''0.5'', '' 1 '']\<rparr>"
  by (simp add: tuple_eval lib_eval)

lemma lang_record:
  "processLanguage refLib \<lparr>Type = ''language'', Parts = [''language'', ''ENG'', ''0.5'', '' 1 '']\<rparr>
     emptyResponse
   = emptyResponse\<lparr>Languages := [\<lparr>la_Code = ''eng'', la_Confidence = Fin 0.5, la_IsPrimary = True,
        la_Metadata = Map.empty\<rparr>]\<rparr>"
  by (simp add: processLanguage_def isISO639_3_def field_eval lib_eval)

lemma lang_processRecord:
  "processRecord refLib ''(language<||>ENG<||>0.5<||> 1 )'' emptyResponse
   = emptyResponse\<lparr>Languages := [\<lparr>la_Code = ''eng'', la_Confidence = Fin 0.5, la_IsPrimary = True,
        la_Metadata = Map.empty\<rparr>]\<rparr>"
  by (simp add: processRecord_def lang_tuple lang_record)

lemma lang_parse:
  "ParseNLUResponse refLib ''(language<||>ENG<||>0.5<||> 1 )''
   = Inr (emptyResponse\<lparr>Languages := [\<lparr>la_Code = ''eng'', la_Confidence = Fin 0.5, la_IsPrimary = True,
        la_Metadata = Map.empty\<rparr>], PrimaryLanguage := ''eng''\<rparr>)"
proof -
  let ?c = "''(language<||>ENG<||>0.5<||> 1 )''"
  have a: "\<not> maxContentLen < length ?c" by (simp add: maxContentLen_def)
  have b: "Index ?c endDelim = None" by (simp add: endDelim_def HasPrefix_def)
  have c: "Split ?c recDelim = [?c]" by (simp add: Split_def recDelim_def HasPrefix_def)
  have d: "processRecords refLib [?c] 0 emptyResponse = processRecord refLib ?c emptyResponse"
    by (rule processRecords_one) (simp_all add: lib_eval endDelim_def)
  show ?thesis
    unfolding ParseNLUResponse_small [OF a b] c d lang_processRecord
    by (simp add: derivedFields_def emptyResponse_def Let_def)
qed

theorem language_record_acceptance_counterexample:
  "\<not> isISO639_3 ''ENG'' \<and> '' 1 '' \<noteq> ''1''
   \<and> parseRawTuple refLib ''(language<||>ENG<||>0.5<||> 1 )'' =
       Inr \<lparr>Type = ''language'', Parts = [''language'', ''ENG'', ''0.5'', '' 1 '']\<rparr>
   \<and> ParseNLUResponse refLib ''(language<||>ENG<||>0.5<||> 1 )''
     = Inr (emptyResponse\<lparr>Languages := [\<lparr>la_Code = ''eng'', la_Confidence = Fin 0.5,
          la_IsPrimary = True, la_Metadata = Map.empty\<rparr>], PrimaryLanguage := ''eng''\<rparr>)"
  using lang_tuple lang_parse by (simp add: isISO639_3_def)

text \<open>
  The same record is accepted under the amended conditions, and the entry stored is the
  one they describe; a record with a code field of four letters is not accepted.
\<close>

lemma long_code_tuple:
  "parseRawTuple refLib ''(language<||>engl<||>0.5<||>1)'' =
     Inr \<lparr>Type = ''language'', Parts = [''language'', ''engl'', ''0.5'', ''1'']\<rparr>"
  by (simp add: tuple_eval lib_eval)

theorem language_record_acceptance_witness:
  "Languages (processRecord refLib ''(language<||>ENG<||>0.5<||> 1 )'' emptyResponse)
       = [\<lparr>la_Code = ''eng'', la_Confidence = Fin 0.5, la_IsPrimary = True, la_Metadata = Map.empty\<rparr>]
   \<and> acceptedLanguage refLib ''(language<||>ENG<||>0.5<||> 1 )''
       \<lparr>la_Code = ''eng'', la_Confidence = Fin 0.5, la_IsPrimary = True, la_Metadata = Map.empty\<rparr>
   \<and> inputRecords ''(language<||>ENG<||>0.5<||> 1 )'' = [''(language<||>ENG<||>0.5<||> 1 )'']
   \<and> Languages (processRecord refLib ''(language<||>engl<||>0.5<||>1)'' emptyResponse) = []"
proof -
  let ?c = "''(language<||>ENG<||>0.5<||> 1 )''"
  let ?la = "\<lparr>la_Code = ''eng'', la_Confidence = Fin 0.5, la_IsPrimary = True, la_Metadata = Map.empty\<rparr>"
  have e: "Languages emptyResponse = []" by (simp add: emptyResponse_def)
  have l: "Languages (processRecord refLib ?c emptyResponse) = [?la]"
    by (simp add: lang_processRecord)
  have h: "parseRawTuple refLib ?c = Inr \<lparr>Type = ''language'', Parts = [''language'', ''ENG'', ''0.5'', '' 1 '']\<rparr>
      \<and> Type \<lparr>Type = ''language'', Parts = [''language'', ''ENG'', ''0.5'', '' 1 '']\<rparr> = ''language''
      \<and> 4 \<le> length (Parts \<lparr>Type = ''language'', Parts = [''language'', ''ENG'', ''0.5'', '' 1 '']\<rparr>)
      \<and> length (ToLower refLib (TrimSpace refLib
            (Parts \<lparr>Type = ''language'', Parts = [''language'', ''ENG'', ''0.5'', '' 1 '']\<rparr> ! 1))) = 3
      \<and> set (ToLower refLib (TrimSpace refLib
            (Parts \<lparr>Type = ''language'', Parts = [''language'', ''ENG'', ''0.5'', '' 1 '']\<rparr> ! 1)))
          \<subseteq> set ''abcdefghijklmnopqrstuvwxyz''
      \<and> ValidString refLib (ToLower refLib (TrimSpace refLib
            (Parts \<lparr>Type = ''language'', Parts = [''language'', ''ENG'', ''0.5'', '' 1 '']\<rparr> ! 1)))
      \<and> ParseFloat refLib (TrimSpace refLib
            (Parts \<lparr>Type = ''language'', Parts = [''language'', ''ENG'', ''0.5'', '' 1 '']\<rparr> ! 2))
          = Inr (Fin 0.5) \<and> (0 :: real) \<le> 0.5 \<and> (0.5 :: real) \<le> 1"
    unfolding lang_tuple by (simp add: lib_eval)
  have a: "acceptedLanguage refLib ?c ?la"
    using language_record_acceptance [of refLib ?c emptyResponse ?c
        "\<lparr>Type = ''language'', Parts = [''language'', ''ENG'', ''0.5'', '' 1 '']\<rparr>" "0.5",
        THEN conjunct2, THEN conjunct2] h l e
    by auto
  have i: "inputRecords ?c = [?c]"
    by (simp add: inputRecords_def maxContentLen_def endDelim_def Split_def recDelim_def HasPrefix_def)
  have n: "\<not> acceptedLanguage refLib ''(language<||>engl<||>0.5<||>1)'' la" for la
    unfolding acceptedLanguage_def long_code_tuple by (auto simp: lib_eval)
  have r: "Languages (processRecord refLib ''(language<||>engl<||>0.5<||>1)'' emptyResponse) = []"
    using language_record_acceptance [of refLib "''(language<||>engl<||>0.5<||>1)''" emptyResponse ?c rt c,
        THEN conjunct1] n e by auto
  show ?thesis using l a i r by blast
qed

text \<open>Two intents of equal confidence: the first one is the primary intent.\<close>

lemma tie_parse:
  "ParseNLUResponse refLib ''(intent<||>x<||>0.5<||>1)##(intent<||>y<||>0.5<||>0)''
   = Inr (emptyResponse\<lparr>Intents :=
       [\<lparr>it_Name = ''x'', it_Confidence = Fin 0.5, it_Priority = Fin 1, it_Metadata = Map.empty\<rparr>,
        \<lparr>it_Name = ''y'', it_Confidence = Fin 0.5, it_Priority = Fin 0, it_Metadata = Map.empty\<rparr>],
       PrimaryIntent := ''x'', ImportanceScore := Fin (3152519739159347 / 2 ^ 52)\<rparr>)"
proof -
  let ?c = "''(intent<||>x<||>0.5<||>1)##(intent<||>y<||>0.5<||>0)''"
  let ?r1 = "''(intent<||>x<||>0.5<||>1)''"
  let ?r2 = "''(intent<||>y<||>0.5<||>0)''"
  have a: "\<not> maxContentLen < length ?c" by (simp add: maxContentLen_def)
  have b: "Index ?c endDelim = None" by (simp add: endDelim_def HasPrefix_def)
  have c: "Split ?c recDelim = [?r1, ?r2]" by (simp add: Split_def recDelim_def HasPrefix_def)
  have d: "processRecords refLib [?r1, ?r2] 0 emptyResponse
      = processRecord refLib ?r2 (processRecord refLib ?r1 emptyResponse)"
    by (rule processRecords_two) (simp_all add: lib_eval endDelim_def)
  have t1: "parseRawTuple refLib ?r1 = Inr \<lparr>Type = ''intent'', Parts = [''intent'', ''x'', ''0.5'', ''1'']\<rparr>"
    by (simp add: tuple_eval lib_eval)
  have t2: "parseRawTuple refLib ?r2 = Inr \<lparr>Type = ''intent'', Parts = [''intent'', ''y'', ''0.5'', ''0'']\<rparr>"
    by (simp add: tuple_eval lib_eval)
  have p1: "processIntent refLib \<lparr>Type = ''intent'', Parts = [''intent'', ''x'', ''0.5'', ''1'']\<rparr> resp
     = resp\<lparr>Intents := Intents resp @
         [\<lparr>it_Name = ''x'', it_Confidence = Fin 0.5, it_Priority = Fin 1, it_Metadata = Map.empty\<rparr>]\<rparr>" for resp
    by (rule intent_record) (simp_all add: lib_eval)
  have p2: "processIntent refLib \<lparr>Type = ''intent'', Parts = [''intent'', ''y'', ''0.5'', ''0'']\<rparr> resp
     = resp\<lparr>Intents := Intents resp @
         [\<lparr>it_Name = ''y'', it_Confidence = Fin 0.5, it_Priority = Fin 0, it_Metadata = Map.empty\<rparr>]\<rparr>" for resp
    by (rule intent_record) (simp_all add: lib_eval)
  have e: "processRecord refLib ?r2 (processRecord refLib ?r1 emptyResponse)
     = emptyResponse\<lparr>Intents :=
       [\<lparr>it_Name = ''x'', it_Confidence = Fin 0.5, it_Priority = Fin 1, it_Metadata = Map.empty\<rparr>,
        \<lparr>it_Name = ''y'', it_Confidence = Fin 0.5, it_Priority = Fin 0, it_Metadata = Map.empty\<rparr>]\<rparr>"
    by (simp add: processRecord_def t1 t2 p1 p2) (simp add: emptyResponse_def)
  show ?thesis
    unfolding ParseNLUResponse_small [OF a b] c d e
    by (simp add: derivedFields_def emptyResponse_def Let_def f_gt_def round64_eval)
qed

theorem primaryIntent_first_maximum_witness:
  "PrimaryIntent (emptyResponse\<lparr>Intents :=
       [\<lparr>it_Name = ''x'', it_Confidence = Fin 0.5, it_Priority = Fin 1, it_Metadata = Map.empty\<rparr>,
        \<lparr>it_Name = ''y'', it_Confidence = Fin 0.5, it_Priority = Fin 0, it_Metadata = Map.empty\<rparr>],
       PrimaryIntent := ''x'', ImportanceScore := Fin (3152519739159347 / 2 ^ 52)\<rparr>)
   = primaryIntentOf
       [\<lparr>it_Name = ''x'', it_Confidence = Fin 0.5, it_Priority = Fin 1, it_Metadata = Map.empty\<rparr>,
        \<lparr>it_Name = ''y'', it_Confidence = Fin 0.5, it_Priority = Fin 0, it_Metadata = Map.empty\<rparr>]
   \<and> primaryIntentOf
       [\<lparr>it_Name = ''x'', it_Confidence = Fin 0.5, it_Priority = Fin 1, it_Metadata = Map.empty\<rparr>,
        \<lparr>it_Name = ''y'', it_Confidence = Fin 0.5, it_Priority = Fin 0, it_Metadata = Map.empty\<rparr>] = ''x''"
proof -
  obtain r where r: "ParseNLUResponse refLib ''(intent<||>x<||>0.5<||>1)##(intent<||>y<||>0.5<||>0)'' = Inr r"
    and p: "PrimaryIntent r = primaryIntentOf (Intents r)"
    using primaryIntent_first_maximum [of refLib "''(intent<||>x<||>0.5<||>1)##(intent<||>y<||>0.5<||>0)''"]
    by blast
  from r have "r = emptyResponse\<lparr>Intents :=
       [\<lparr>it_Name = ''x'', it_Confidence = Fin 0.5, it_Priority = Fin 1, it_Metadata = Map.empty\<rparr>,
        \<lparr>it_Name = ''y'', it_Confidence = Fin 0.5, it_Priority = Fin 0, it_Metadata = Map.empty\<rparr>],
       PrimaryIntent := ''x'', ImportanceScore := Fin (3152519739159347 / 2 ^ 52)\<rparr>"
    unfolding tie_parse by simp
  with p show ?thesis by simp
qed

lemma dup_parse:
  "ParseNLUResponse refLib ''(intent<||>a<||>0.25<||>1)##(intent<||>a<||>0.75<||>0)''
   = Inr (emptyResponse\<lparr>Intents :=
       [\<lparr>it_Name = ''a'', it_Confidence = Fin 0.25, it_Priority = Fin 1, it_Metadata = Map.empty\<rparr>,
        \<lparr>it_Name = ''a'', it_Confidence = Fin 0.75, it_Priority = Fin 0, it_Metadata = Map.empty\<rparr>],
       PrimaryIntent := ''a'', ImportanceScore := Fin (2476979795053773 / 2 ^ 52)\<rparr>)"
proof -
  let ?c = "''(intent<||>a<||>0.25<||>1)##(intent<||>a<||>0.75<||>0)''"
  let ?r1 = "''(intent<||>a<||>0.25<||>1)''"
  let ?r2 = "''(intent<||>a<||>0.75<||>0)''"
  have a: "\<not> maxContentLen < length ?c" by (simp add: maxContentLen_def)
  have b: "Index ?c endDelim = None" by (simp add: endDelim_def HasPrefix_def)
  have c: "Split ?c recDelim = [?r1, ?r2]" by (simp add: Split_def recDelim_def HasPrefix_def)
  have d: "processRecords refLib [?r1, ?r2] 0 emptyResponse
      = processRecord refLib ?r2 (processRecord refLib ?r1 emptyResponse)"
    by (rule processRecords_two) (simp_all add: lib_eval endDelim_def)
  have t1: "parseRawTuple refLib ?r1 = Inr \<lparr>Type = ''intent'', Parts = [''intent'', ''a'', ''0.25'', ''1'']\<rparr>"
    by (simp add: tuple_eval lib_eval)
  have t2: "parseRawTuple refLib ?r2 = Inr \<lparr>Type = ''intent'', Parts = [''intent'', ''a'', ''0.75'', ''0'']\<rparr>"
    by (simp add: tuple_eval lib_eval)
  have p1: "processIntent refLib \<lparr>Type = ''intent'', Parts = [''intent'', ''a'', ''0.25'', ''1'']\<rparr> resp
     = resp\<lparr>Intents := Intents resp @
         [\<lparr>it_Name = ''a'', it_Confidence = Fin 0.25, it_Priority = Fin 1, it_Metadata = Map.empty\<rparr>]\<rparr>" for resp
    by (rule intent_record) (simp_all add: lib_eval)
  have p2: "processIntent refLib \<lparr>Type = ''intent'', Parts = [''intent'', ''a'', ''0.75'', ''0'']\<rparr> resp
     = resp\<lparr>Intents := Intents resp @
         [\<lparr>it_Name = ''a'', it_Confidence = Fin 0.75, it_Priority = Fin 0, it_Metadata = Map.empty\<rparr>]\<rparr>" for resp
    by (rule intent_record) (simp_all add: lib_eval)
  have e: "processRecord refLib ?r2 (processRecord refLib ?r1 emptyResponse)
     = emptyResponse\<lparr>Intents :=
       [\<lparr>it_Name = ''a'', it_Confidence = Fin 0.25, it_Priority = Fin 1, it_Metadata = Map.empty\<rparr>,
        \<lparr>it_Name = ''a'', it_Confidence = Fin 0.75, it_Priority = Fin 0, it_Metadata = Map.empty\<rparr>]\<rparr>"
    by (simp add: processRecord_def t1 t2 p1 p2) (simp add: emptyResponse_def)
  show ?thesis
    unfolding ParseNLUResponse_small [OF a b] c d e
    by (simp add: derivedFields_def emptyResponse_def Let_def f_gt_def round64_eval)
qed

text \<open>
  C3. The importance score is to be \<open>0.6 \<times> confidence + 0.4 \<times> priority\<close> of the primary
  intent, the maximum-confidence one. The parser finds the primary intent again by its
  name and takes the first accepted intent of that name. On an input with two intents
  named \<open>a\<close>, of confidence 0.25 and priority 1, then confidence 0.75 and priority 0,
  the primary intent is the second; its score is 0.45, and the parser returns 0.55, the
  score of the first (in binary64 arithmetic, \<open>0.44999999999999996\<close> and \<open>0.55\<close>: the
  two values of the statement, each within \<open>10^-15\<close> of the decimal one).
\<close>

theorem importanceScore_duplicate_names:
  "ParseNLUResponse refLib ''(intent<||>a<||>0.25<||>1)##(intent<||>a<||>0.75<||>0)''
   = Inr (emptyResponse\<lparr>Intents :=
       [\<lparr>it_Name = ''a'', it_Confidence = Fin 0.25, it_Priority = Fin 1, it_Metadata = Map.empty\<rparr>,
        \<lparr>it_Name = ''a'', it_Confidence = Fin 0.75, it_Priority = Fin 0, it_Metadata = Map.empty\<rparr>],
       PrimaryIntent := ''a'', ImportanceScore := Fin (2476979795053773 / 2 ^ 52)\<rparr>)
   \<and> maxConfidenceIntent
       [\<lparr>it_Name = ''a'', it_Confidence = Fin 0.25, it_Priority = Fin 1, it_Metadata = Map.empty\<rparr>,
        \<lparr>it_Name = ''a'', it_Confidence = Fin 0.75, it_Priority = Fin 0, it_Metadata = Map.empty\<rparr>]
     = Some \<lparr>it_Name = ''a'', it_Confidence = Fin 0.75, it_Priority = Fin 0, it_Metadata = Map.empty\<rparr>
   \<and> f_add (f_mul (Fin 0.75) (round64 0.6)) (f_mul (Fin 0) (round64 0.4))
       = Fin (2026619832316723 / 2 ^ 52)
   \<and> Fin (2476979795053773 / 2 ^ 52) \<noteq> Fin (2026619832316723 / 2 ^ 52)
   \<and> \<bar>2476979795053773 / 2 ^ 52 - 0.55\<bar> < (1 / 10 ^ 15 :: real)
   \<and> \<bar>2026619832316723 / 2 ^ 52 - 0.45\<bar> < (1 / 10 ^ 15 :: real)"
proof -
  have a: "round64 0.6 = Fin (5404319552844595 / 2 ^ 53)" "round64 0.4 = Fin (3602879701896397 / 2 ^ 53)"
    by (simp_all add: round64_eval)
  have b: "f_add (f_mul (Fin 0.75) (round64 0.6)) (f_mul (Fin 0) (round64 0.4))
       = Fin (2026619832316723 / 2 ^ 52)"
    unfolding a by (simp add: round64_eval)
  show ?thesis
    using dup_parse b by (simp add: maxConfidenceIntent_def)
qed



text \<open>
  An invocation with a budget of one tool call and a response model that asks for a tool
  in every answer: one tool execution, then the wrap-up notice and the end.
\<close>

lemma empty_parse: "ParseNLUResponse refLib [] = Inr emptyResponse"
proof -
  have a: "\<not> maxContentLen < length ([] :: string)" by (simp add: maxContentLen_def)
  have b: "Index [] endDelim = None" by (simp add: endDelim_def)
  have c: "Split [] recDelim = [[]]" by (simp add: Split_def)
  have d: "processRecords refLib [[]] 0 emptyResponse = emptyResponse"
    by (simp add: maxRecords_def lib_eval)
  show ?thesis
    unfolding ParseNLUResponse_small [OF a b] c d
    by (simp add: derivedFields_def emptyResponse_def Let_def)
qed

theorem tool_call_count_bounded_witness:
  "map (\<lambda>(n, p, s). (n, sint (ToolCallCount s), ToolCallLimitReached s))
     (invocation_trace refLib
        \<lparr>ToolMaxCalls = 1, NLUModelName = ''gemini-2.5-flash-lite'', ResponseModelName = ''gemini-2.5-flash''\<rparr>
        \<lparr>w_InputConverter = \<lambda>k q. Inr [],
         w_NLUChatModel = \<lambda>k ms. Inr (Some (SystemMessage [])),
         w_ResponseAssembler = \<lambda>k r c. Inr [],
         w_ResponseChatModel = \<lambda>k ms. Inr (Some
           \<lparr>Role = Assistant, Content = [],
            ToolCalls = [\<lparr>ID = ''t1'', FunctionName = ''search_product'', FunctionArguments = ''{}''\<rparr>],
            ToolCallID = [], ResponseMeta = None, Extra = Map.empty\<rparr>),
         w_ToolExecutor = \<lambda>k m. Inr []\<rparr>
        \<lparr>qi_ConversationID = ''c'', qi_Query = ''q''\<rparr>)
   = [(NodeInputConverter, 0, False), (NodeNLUChatModel, 0, False), (NodeParser, 0, False),
      (NodeResponseAssembler, 0, False), (NodeResponseChatModel, 0, False),
      (NodeToolExecutor, 0, False), (NodeResponseChatModel, 1, False), (END, 1, True)]
   \<and> \<not> fst (incrementToolCallAndCheck
        \<lparr>ConversationID = ''c'', History = [Some
           \<lparr>Role = Assistant, Content = [],
            ToolCalls = [\<lparr>ID = ''t1'', FunctionName = ''search_product'', FunctionArguments = ''{}''\<rparr>],
            ToolCallID = [], ResponseMeta = None, Extra = Map.empty\<rparr>],
         NLUAnalysis = Some emptyResponse,
         ToolCallCount = 0, ToolCallLimitReached = False, ToolCallIDSeq = 0, TotalCostUSD = Fin 0\<rparr> 1)
   \<and> sint (ToolCallCount (snd (incrementToolCallAndCheck
        \<lparr>ConversationID = ''c'', History = [Some
           \<lparr>Role = Assistant, Content = [],
            ToolCalls = [\<lparr>ID = ''t1'', FunctionName = ''search_product'', FunctionArguments = ''{}''\<rparr>],
            ToolCallID = [], ResponseMeta = None, Extra = Map.empty\<rparr>],
         NLUAnalysis = Some emptyResponse,
         ToolCallCount = 0, ToolCallLimitReached = False, ToolCallIDSeq = 0, TotalCostUSD = Fin 0\<rparr> 1)))
       \<le> sint (normalizeMaxToolCalls 1)"
proof -
  let ?cfg = "\<lparr>ToolMaxCalls = 1, NLUModelName = ''gemini-2.5-flash-lite'', ResponseModelName = ''gemini-2.5-flash''\<rparr>"
  let ?tm = "\<lparr>Role = Assistant, Content = [],
            ToolCalls = [\<lparr>ID = ''t1'', FunctionName = ''search_product'', FunctionArguments = ''{}''\<rparr>],
            ToolCallID = [], ResponseMeta = None, Extra = Map.empty\<rparr>"
  let ?W = "\<lparr>w_InputConverter = \<lambda>k q. Inr [],
         w_NLUChatModel = \<lambda>k ms. Inr (Some (SystemMessage [])),
         w_ResponseAssembler = \<lambda>k r c. Inr [],
         w_ResponseChatModel = \<lambda>k ms. Inr (Some ?tm),
         w_ToolExecutor = \<lambda>k m. Inr []\<rparr>"
  let ?q = "\<lparr>qi_ConversationID = ''c'', qi_Query = ''q''\<rparr>"
  let ?f = "exec_node refLib ?cfg ?W"
  let ?s1 = "\<lparr>ConversationID = ''c'', History = [], NLUAnalysis = None, ToolCallCount = 0,
      ToolCallLimitReached = False, ToolCallIDSeq = 0, TotalCostUSD = Fin 0\<rparr>"
  let ?s3 = "\<lparr>ConversationID = ''c'', History = [], NLUAnalysis = Some emptyResponse, ToolCallCount = 0,
      ToolCallLimitReached = False, ToolCallIDSeq = 0, TotalCostUSD = Fin 0\<rparr>"
  let ?s5 = "\<lparr>ConversationID = ''c'', History = [Some ?tm], NLUAnalysis = Some emptyResponse,
      ToolCallCount = 0, ToolCallLimitReached = False, ToolCallIDSeq = 0, TotalCostUSD = Fin 0\<rparr>"
  let ?s6 = "\<lparr>ConversationID = ''c'', History = [Some ?tm], NLUAnalysis = Some emptyResponse,
      ToolCallCount = 1, ToolCallLimitReached = False, ToolCallIDSeq = 0, TotalCostUSD = Fin 0\<rparr>"
  let ?s7 = "\<lparr>ConversationID = ''c'', History = [Some ?tm, Some (wrapUpNotice 1), Some ?tm],
      NLUAnalysis = Some emptyResponse,
      ToolCallCount = 1, ToolCallLimitReached = True, ToolCallIDSeq = 0, TotalCostUSD = Fin 0\<rparr>"
  have lim: "nat (sint (maxSteps ?cfg)) = 20"
    by (simp add: maxSteps_def Let_def word_sless_alt)
  have nm: "normalizeMaxToolCalls 1 = 1"
    by (simp add: normalizeMaxToolCalls_def word_sle_eq)
  have e0: "?f 0 NodeInputConverter (PQuery ?q) zeroState = Inr (NodeNLUChatModel, PMessages [], ?s1)"
    by (simp add: NewInputConverterPreHandler_def zeroState_def)
  have e1: "?f 1 NodeNLUChatModel (PMessages []) ?s1 = Inr (NodeParser, PMessage (Some (SystemMessage [])), ?s1)"
    by (simp add: NewNLUChatModelPostHandler_def recordUsageCost_def SystemMessage_def)
  have e2: "?f 2 NodeParser (PMessage (Some (SystemMessage []))) ?s1
      = Inr (NodeResponseAssembler, PNLU emptyResponse, ?s3)"
    by (simp add: NewParserNode_def SystemMessage_def empty_parse NewParserPostHandler_def
        NewHumanHandoffCondition_def emptyResponse_def)
  have e3: "?f 3 NodeResponseAssembler (PNLU emptyResponse) ?s3
      = Inr (NodeResponseChatModel, PMessages [], ?s3)"
    by (simp add: NewResponseAssemblerNode_def)
  have e4: "?f 4 NodeResponseChatModel (PMessages []) ?s3 = Inr (NodeToolExecutor, PMessage (Some ?tm), ?s5)"
    by (simp add: NewResponseChatModelPreHandler_def backfillToolCallID_def checkAndMarkToolLimit_def nm
        word_sle_eq NewResponseChatModelPostHandler_def recordUsageCost_def NewToolExecutorCondition_def
        Let_def lib_eval)
  have e5: "?f 5 NodeToolExecutor (PMessage (Some ?tm)) ?s5 = Inr (NodeResponseChatModel, PMessages [], ?s6)"
    by (simp add: NewToolExecutorPreHandler_def incrementToolCallAndCheck_def nm word_sless_alt)
  have e6: "?f 6 NodeResponseChatModel (PMessages []) ?s6 = Inr (END, PMessage (Some ?tm), ?s7)"
    by (simp add: NewResponseChatModelPreHandler_def backfillToolCallID_def checkAndMarkToolLimit_def nm
        word_sle_eq NewResponseChatModelPostHandler_def recordUsageCost_def NewToolExecutorCondition_def
        Let_def lib_eval)
  have r6: "run_trace ?f 20 6 NodeResponseChatModel (PMessages []) ?s6
      = [(NodeResponseChatModel, PMessages [], ?s6), (END, PMessage (Some ?tm), ?s7)]"
    by (subst run_trace.simps, subst e6) (simp add: run_trace_END)
  have r5: "run_trace ?f 20 5 NodeToolExecutor (PMessage (Some ?tm)) ?s5
      = (NodeToolExecutor, PMessage (Some ?tm), ?s5)
        # run_trace ?f 20 6 NodeResponseChatModel (PMessages []) ?s6"
    by (subst run_trace.simps, subst e5) simp
  have r4: "run_trace ?f 20 4 NodeResponseChatModel (PMessages []) ?s3
      = (NodeResponseChatModel, PMessages [], ?s3)
        # run_trace ?f 20 5 NodeToolExecutor (PMessage (Some ?tm)) ?s5"
    by (subst run_trace.simps, subst e4) simp
  have r3: "run_trace ?f 20 3 NodeResponseAssembler (PNLU emptyResponse) ?s3
      = (NodeResponseAssembler, PNLU emptyResponse, ?s3)
        # run_trace ?f 20 4 NodeResponseChatModel (PMessages []) ?s3"
    by (subst run_trace.simps, subst e3) simp
  have r2: "run_trace ?f 20 2 NodeParser (PMessage (Some (SystemMessage []))) ?s1
      = (NodeParser, PMessage (Some (SystemMessage [])), ?s1)
        # run_trace ?f 20 3 NodeResponseAssembler (PNLU emptyResponse) ?s3"
    by (subst run_trace.simps, subst e2) simp
  have r1: "run_trace ?f 20 1 NodeNLUChatModel (PMessages []) ?s1
      = (NodeNLUChatModel, PMessages [], ?s1)
        # run_trace ?f 20 2 NodeParser (PMessage (Some (SystemMessage []))) ?s1"
    by (subst run_trace.simps, subst e1) (simp add: numeral_2_eq_2)
  have r0: "run_trace ?f 20 0 NodeInputConverter (PQuery ?q) zeroState
      = (NodeInputConverter, PQuery ?q, zeroState)
        # run_trace ?f 20 1 NodeNLUChatModel (PMessages []) ?s1"
    by (subst run_trace.simps, subst e0) simp
  have tr: "invocation_trace refLib ?cfg ?W ?q =
      [(NodeInputConverter, PQuery ?q, zeroState), (NodeNLUChatModel, PMessages [], ?s1),
       (NodeParser, PMessage (Some (SystemMessage [])), ?s1),
       (NodeResponseAssembler, PNLU emptyResponse, ?s3),
       (NodeResponseChatModel, PMessages [], ?s3),
       (NodeToolExecutor, PMessage (Some ?tm), ?s5),
       (NodeResponseChatModel, PMessages [], ?s6), (END, PMessage (Some ?tm), ?s7)]"
    unfolding invocation_trace_def lim r0 r1 r2 r3 r4 r5 r6 ..
  have a: "map (\<lambda>(n, p, s). (n, sint (ToolCallCount s), ToolCallLimitReached s))
     (invocation_trace refLib ?cfg ?W ?q)
   = [(NodeInputConverter, 0, False), (NodeNLUChatModel, 0, False), (NodeParser, 0, False),
      (NodeResponseAssembler, 0, False), (NodeResponseChatModel, 0, False),
      (NodeToolExecutor, 0, False), (NodeResponseChatModel, 1, False), (END, 1, True)]"
    unfolding tr by (simp add: zeroState_def)
  have m: "(NodeToolExecutor, PMessage (Some ?tm), ?s5) \<in> set (invocation_trace refLib ?cfg ?W ?q)"
    unfolding tr by simp
  have b: "\<not> fst (incrementToolCallAndCheck ?s5 1)
      \<and> sint (ToolCallCount (snd (incrementToolCallAndCheck ?s5 1))) \<le> sint (normalizeMaxToolCalls 1)"
    using tool_call_count_bounded [of refLib ?cfg ?W ?q] m by fastforce
  show ?thesis using a b by blast
qed

text \<open>
  The first four steps of an invocation in the sample world, whatever the budget: the
  input converter, the NLU model, the parser and the response assembler; the response
  step is then due for the first time, with no tool call counted and the flag unset.
\<close>

lemma sample_run_steps:
  "exec_node refLib (configWithBudget t) toolHungryWorld 0 NodeInputConverter (PQuery sampleQuery) zeroState
     = Inr (NodeNLUChatModel, PMessages [], startedState)"
  "exec_node refLib (configWithBudget t) toolHungryWorld 1 NodeNLUChatModel (PMessages []) startedState
     = Inr (NodeParser, PMessage (Some (SystemMessage [])), startedState)"
  "exec_node refLib (configWithBudget t) toolHungryWorld 2 NodeParser (PMessage (Some (SystemMessage [])))
     startedState = Inr (NodeResponseAssembler, PNLU emptyResponse, analysedState)"
  "exec_node refLib (configWithBudget t) toolHungryWorld 3 NodeResponseAssembler (PNLU emptyResponse)
     analysedState = Inr (NodeResponseChatModel, PMessages [], analysedState)"
proof -
  show "exec_node refLib (configWithBudget t) toolHungryWorld 0 NodeInputConverter (PQuery sampleQuery) zeroState
     = Inr (NodeNLUChatModel, PMessages [], startedState)"
    by (simp add: NewInputConverterPreHandler_def zeroState_def)
  show "exec_node refLib (configWithBudget t) toolHungryWorld 1 NodeNLUChatModel (PMessages []) startedState
     = Inr (NodeParser, PMessage (Some (SystemMessage [])), startedState)"
    by (simp add: NewNLUChatModelPostHandler_def recordUsageCost_def SystemMessage_def)
  show "exec_node refLib (configWithBudget t) toolHungryWorld 2 NodeParser (PMessage (Some (SystemMessage [])))
     startedState = Inr (NodeResponseAssembler, PNLU emptyResponse, analysedState)"
    by (simp add: NewParserNode_def SystemMessage_def empty_parse NewParserPostHandler_def
        NewHumanHandoffCondition_def emptyResponse_def)
  show "exec_node refLib (configWithBudget t) toolHungryWorld 3 NodeResponseAssembler (PNLU emptyResponse)
     analysedState = Inr (NodeResponseChatModel, PMessages [], analysedState)"
    by (simp add: NewResponseAssemblerNode_def)
qed

lemma sample_run_prefix:
  assumes "20 \<le> limit"
  shows "run_trace (exec_node refLib (configWithBudget t) toolHungryWorld) limit 0
           NodeInputConverter (PQuery sampleQuery) zeroState
         = [(NodeInputConverter, PQuery sampleQuery, zeroState),
            (NodeNLUChatModel, PMessages [], startedState),
            (NodeParser, PMessage (Some (SystemMessage [])), startedState),
            (NodeResponseAssembler, PNLU emptyResponse, analysedState)]
           @ run_trace (exec_node refLib (configWithBudget t) toolHungryWorld) limit 4
               NodeResponseChatModel (PMessages []) analysedState"
proof -
  let ?f = "exec_node refLib (configWithBudget t) toolHungryWorld"
  have k: "\<not> limit \<le> 0" "\<not> limit \<le> 1" "\<not> limit \<le> 2" "\<not> limit \<le> 3" "\<not> limit \<le> Suc 0" "limit \<noteq> 0"
    using assms by simp_all
  have r3: "run_trace ?f limit 3 NodeResponseAssembler (PNLU emptyResponse) analysedState
      = (NodeResponseAssembler, PNLU emptyResponse, analysedState)
        # run_trace ?f limit 4 NodeResponseChatModel (PMessages []) analysedState"
    by (subst run_trace.simps, subst sample_run_steps(4)) (simp add: k)
  have r2: "run_trace ?f limit 2 NodeParser (PMessage (Some (SystemMessage []))) startedState
      = (NodeParser, PMessage (Some (SystemMessage [])), startedState)
        # run_trace ?f limit 3 NodeResponseAssembler (PNLU emptyResponse) analysedState"
    by (subst run_trace.simps, subst sample_run_steps(3)) (simp add: k)
  have r1: "run_trace ?f limit 1 NodeNLUChatModel (PMessages []) startedState
      = (NodeNLUChatModel, PMessages [], startedState)
        # run_trace ?f limit 2 NodeParser (PMessage (Some (SystemMessage []))) startedState"
    by (subst run_trace.simps, subst sample_run_steps(2)) (simp add: k numeral_2_eq_2)
  have r0: "run_trace ?f limit 0 NodeInputConverter (PQuery sampleQuery) zeroState
      = (NodeInputConverter, PQuery sampleQuery, zeroState)
        # run_trace ?f limit 1 NodeNLUChatModel (PMessages []) startedState"
    by (subst run_trace.simps, subst sample_run_steps(1)) (simp add: k)
  show ?thesis
    unfolding r0 r1 r2 r3 by simp
qed

lemma first_response_step:
  "(NodeResponseChatModel, PMessages [], analysedState)
     \<in> set (invocation_trace refLib (configWithBudget t) toolHungryWorld sampleQuery)"
proof -
  have "20 \<le> nat (sint (maxSteps (configWithBudget t)))"
    using maxSteps_ge [of "configWithBudget t"] by simp
  then show ?thesis
    unfolding invocation_trace_def
    by (subst sample_run_prefix) (simp_all add: run_trace_head)
qed

text \<open>
  C1 as stated fails for a configured maximum of zero: when the response step is due for
  the first time the count, 0, already meets the configured maximum, 0, but the maximum in
  force is 10, and the pre-handler appends no notice and does not mark the limit.
\<close>

theorem response_pre_handler_notice_counterexample:
  "(NodeResponseChatModel, PMessages [], analysedState)
     \<in> set (invocation_trace refLib (configWithBudget 0) toolHungryWorld sampleQuery)
   \<and> sint (ToolMaxCalls (configWithBudget 0)) \<le> sint (ToolCallCount analysedState)
   \<and> NewResponseChatModelPreHandler refLib (ToolMaxCalls (configWithBudget 0)) [] analysedState
       = ([], analysedState)
   \<and> History (snd (NewResponseChatModelPreHandler refLib (ToolMaxCalls (configWithBudget 0)) []
         analysedState))
       \<noteq> History analysedState @ [Some (wrapUpNotice (ToolMaxCalls (configWithBudget 0)))]
   \<and> \<not> ToolCallLimitReached (snd (NewResponseChatModelPreHandler refLib
         (ToolMaxCalls (configWithBudget 0)) [] analysedState))"
  using first_response_step [of 0]
  by (simp add: NewResponseChatModelPreHandler_def checkAndMarkToolLimit_def Let_def
      backfillToolCallID_def normalizeMaxToolCalls_def DefaultMaxToolCalls_def word_sle_eq)

text \<open>
  With a budget of one tool call the response step is due a second time after the tool
  execution, with the count 1: the pre-handler appends the notice and marks the limit,
  and a second run on the state it produced appends nothing.
\<close>

lemma second_response_step:
  "(NodeResponseChatModel, PMessages [],
      analysedState\<lparr>History := [Some toolRequest], ToolCallCount := 1\<rparr>)
     \<in> set (invocation_trace refLib (configWithBudget 1) toolHungryWorld sampleQuery)"
proof -
  let ?cfg = "configWithBudget 1"
  let ?f = "exec_node refLib ?cfg toolHungryWorld"
  let ?s5 = "analysedState\<lparr>History := [Some toolRequest]\<rparr>"
  let ?s6 = "analysedState\<lparr>History := [Some toolRequest], ToolCallCount := 1\<rparr>"
  have lim: "nat (sint (maxSteps ?cfg)) = 20"
    by (simp add: maxSteps_def Let_def word_sless_alt)
  have nm: "normalizeMaxToolCalls 1 = 1"
    by (simp add: normalizeMaxToolCalls_def word_sle_eq)
  have e4: "?f 4 NodeResponseChatModel (PMessages []) analysedState
      = Inr (NodeToolExecutor, PMessage (Some toolRequest), ?s5)"
    by (simp add: NewResponseChatModelPreHandler_def backfillToolCallID_def checkAndMarkToolLimit_def nm
        word_sle_eq NewResponseChatModelPostHandler_def recordUsageCost_def NewToolExecutorCondition_def
        Let_def lib_eval)
  have e5: "?f 5 NodeToolExecutor (PMessage (Some toolRequest)) ?s5
      = Inr (NodeResponseChatModel, PMessages [], ?s6)"
    by (simp add: NewToolExecutorPreHandler_def incrementToolCallAndCheck_def nm word_sless_alt)
  have r5: "run_trace ?f 20 5 NodeToolExecutor (PMessage (Some toolRequest)) ?s5
      = (NodeToolExecutor, PMessage (Some toolRequest), ?s5)
        # run_trace ?f 20 6 NodeResponseChatModel (PMessages []) ?s6"
    by (subst run_trace.simps, subst e5) simp
  have r4: "run_trace ?f 20 4 NodeResponseChatModel (PMessages []) analysedState
      = (NodeResponseChatModel, PMessages [], analysedState)
        # run_trace ?f 20 5 NodeToolExecutor (PMessage (Some toolRequest)) ?s5"
    by (subst run_trace.simps, subst e4) simp
  have tr: "run_trace ?f 20 0 NodeInputConverter (PQuery sampleQuery) zeroState
      = [(NodeInputConverter, PQuery sampleQuery, zeroState),
         (NodeNLUChatModel, PMessages [], startedState),
         (NodeParser, PMessage (Some (SystemMessage [])), startedState),
         (NodeResponseAssembler, PNLU emptyResponse, analysedState)]
        @ run_trace ?f 20 4 NodeResponseChatModel (PMessages []) analysedState"
    by (rule sample_run_prefix) simp
  have "(NodeResponseChatModel, PMessages [], ?s6)
      \<in> set (run_trace ?f 20 6 NodeResponseChatModel (PMessages []) ?s6)"
    by (rule run_trace_head)
  then show ?thesis
    unfolding invocation_trace_def lim tr r4 r5 by simp
qed

theorem response_pre_handler_notice_witness:
  "(NodeResponseChatModel, PMessages [],
      analysedState\<lparr>History := [Some toolRequest], ToolCallCount := 1\<rparr>)
     \<in> set (invocation_trace refLib (configWithBudget 1) toolHungryWorld sampleQuery)
   \<and> NewResponseChatModelPreHandler refLib 1 []
        (analysedState\<lparr>History := [Some toolRequest], ToolCallCount := 1\<rparr>)
       = ([Some toolRequest, Some (wrapUpNotice 1)],
          analysedState\<lparr>History := [Some toolRequest, Some (wrapUpNotice 1)], ToolCallCount := 1,
            ToolCallLimitReached := True\<rparr>)
   \<and> History (snd (NewResponseChatModelPreHandler refLib 1 []
        (analysedState\<lparr>History := [Some toolRequest, Some (wrapUpNotice 1)], ToolCallCount := 1,
            ToolCallLimitReached := True\<rparr>)))
       = [Some toolRequest, Some (wrapUpNotice 1)]"
proof -
  let ?s6 = "analysedState\<lparr>History := [Some toolRequest], ToolCallCount := 1\<rparr>"
  let ?s7 = "analysedState\<lparr>History := [Some toolRequest, Some (wrapUpNotice 1)], ToolCallCount := 1,
            ToolCallLimitReached := True\<rparr>"
  have nm: "normalizeMaxToolCalls 1 = 1"
    by (simp add: normalizeMaxToolCalls_def word_sle_eq)
  have pre: "NewResponseChatModelPreHandler refLib (ToolMaxCalls (configWithBudget 1)) [] ?s6
      = ([Some toolRequest, Some (wrapUpNotice 1)], ?s7)"
    by (simp add: NewResponseChatModelPreHandler_def checkAndMarkToolLimit_def Let_def
        backfillToolCallID_def nm word_sle_eq)
  note T = response_pre_handler_notice [OF second_response_step pre, of "[]"]
  have "History (snd (NewResponseChatModelPreHandler refLib (ToolMaxCalls (configWithBudget 1)) [] ?s7))
      = History ?s7 @ backfillToolCallID refLib [] ?s7"
    using T by (simp add: nm)
  then show ?thesis
    using second_response_step pre by (simp add: backfillToolCallID_def)
qed

text \<open>
  With a budget of zero the limit in force is 10 and the ceiling 20: the invocation in
  the sample world makes the four steps to the first response step and then eight rounds
  of response step and tool execution, and is aborted at the ceiling.
\<close>

theorem step_ceiling_witness:
  "sint (maxSteps (configWithBudget 0)) = 20
   \<and> length (invocation_trace refLib (configWithBudget 0) toolHungryWorld sampleQuery) = 21
   \<and> Invoke refLib (configWithBudget 0) toolHungryWorld sampleQuery = (20, Inl ErrExceedMaxSteps)"
proof -
  let ?cfg = "configWithBudget 0"
  let ?f = "exec_node refLib ?cfg toolHungryWorld"
  have v: "sint (maxSteps ?cfg) = 20"
    by (simp add: maxSteps_def Let_def word_sless_alt)
  have T0: "sint (ToolMaxCalls ?cfg) \<le> 0"
    by simp
  have model: "\<forall>k hist. \<exists>m. w_ResponseChatModel toolHungryWorld k hist = Inr (Some m) \<and> ToolCalls m \<noteq> []"
    by simp
  have tools: "\<forall>k m. \<exists>ms. w_ToolExecutor toolHungryWorld k m = Inr ms"
    by simp
  have rest: "length (run_trace ?f 20 4 NodeResponseChatModel (PMessages []) analysedState) = Suc (2 * 8)
      \<and> (\<forall>x \<in> set (run_trace ?f 20 4 NodeResponseChatModel (PMessages []) analysedState). fst x \<noteq> END)"
    by (rule nonpositive_budget_keeps_looping [OF T0 model tools]) simp_all
  have tr: "invocation_trace refLib ?cfg toolHungryWorld sampleQuery
      = [(NodeInputConverter, PQuery sampleQuery, zeroState),
         (NodeNLUChatModel, PMessages [], startedState),
         (NodeParser, PMessage (Some (SystemMessage [])), startedState),
         (NodeResponseAssembler, PNLU emptyResponse, analysedState)]
        @ run_trace ?f 20 4 NodeResponseChatModel (PMessages []) analysedState"
    unfolding invocation_trace_def v by (simp add: sample_run_prefix)
  have len: "length (invocation_trace refLib ?cfg toolHungryWorld sampleQuery) = Suc (nat (sint (maxSteps ?cfg)))"
    unfolding tr v using rest by simp
  have all: "\<forall>x \<in> set (invocation_trace refLib ?cfg toolHungryWorld sampleQuery). fst x \<noteq> END"
    unfolding tr using rest by simp
  have "Invoke refLib ?cfg toolHungryWorld sampleQuery = (nat (sint (maxSteps ?cfg)), Inl ErrExceedMaxSteps)"
    using step_ceiling [of ?cfg refLib toolHungryWorld sampleQuery ?f NodeInputConverter
        "PQuery sampleQuery" zeroState] len all by blast
  then show ?thesis
    using v len by simp
qed

end
